theory Spec2Isabelle
  imports Complex_Main "HOL-Library.Sublist"
begin

section \<open>The icon generator script \<^verbatim>\<open>Scripts/generate-icon.py\<close>\<close>

text \<open>
  The script has no functions of its own: it is a module body that builds a directory path,
  creates the directory, loops over a fixed list of sizes, renders one SVG text per size with
  \<^verbatim>\<open>str.format\<close> and writes it to one or two files, and finally prints two lines.
  The embedding follows that order. What the script takes from the Python runtime
  (integer and float arithmetic, the conversion of numbers to text, \<^verbatim>\<open>str.format\<close>,
  the file system calls) is modelled first, then the script itself.
\<close>

subsection \<open>Exceptions\<close>

text \<open>
  Every exception the modelled operations can raise. The script has no \<^verbatim>\<open>try\<close>, so a
  raised exception ends the run.
\<close>

datatype error = OverflowError | ZeroDivisionError | ValueError | KeyError | OSError

subsection \<open>Python integers as text\<close>

text \<open>
  \<^verbatim>\<open>str(i)\<close> of an \<^verbatim>\<open>int\<close>: the decimal digits, most significant first, with a leading
  minus sign for a negative number. Python integers are unbounded, hence \<^typ>\<open>int\<close>.
\<close>

definition digit_char :: "nat \<Rightarrow> char" where
  "digit_char d = ''0123456789'' ! d"

fun str_nat :: "nat \<Rightarrow> string" where
  "str_nat n = (if n < 10 then [digit_char n] else str_nat (n div 10) @ [digit_char (n mod 10)])"

declare str_nat.simps [simp del]

definition str_int :: "int \<Rightarrow> string" where
  "str_int i = (if i < 0 then CHR ''-'' # str_nat (nat (- i)) else str_nat (nat i))"

subsection \<open>Python floats: IEEE 754 binary64\<close>

text \<open>
  A Python \<^verbatim>\<open>float\<close> is a binary64 number. \<open>Finite s m e\<close> stands for
  \<open>(-1)\<^sup>s * m * 2\<^sup>e\<close> with the significand \<open>m < 2\<^sup>5\<^sup>3\<close> and the exponent
  \<open>- 1074 \<le> e \<le> 971\<close>; a normal number has \<open>2\<^sup>5\<^sup>2 \<le> m\<close>, a subnormal number and zero
  have \<open>e = - 1074\<close>. This is the stored format with the hidden bit written out and the
  exponent bias removed, so every number has one representation and HOL equality is
  equality of bit patterns (the payload of a NaN apart).
\<close>

datatype pyfloat = Finite bool nat int | Infinity bool | NaN

text \<open>\<^verbatim>\<open>int.bit_length\<close>: the number of binary digits of \<open>n\<close>.\<close>

fun bit_length :: "nat \<Rightarrow> nat" where
  "bit_length n = (if n = 0 then 0 else bit_length (n div 2) + 1)"

declare bit_length.simps [simp del]

text \<open>\<open>ge_pow2 p q k\<close> decides \<open>2\<^sup>k \<le> p / q\<close> in integer arithmetic.\<close>

definition ge_pow2 :: "nat \<Rightarrow> nat \<Rightarrow> int \<Rightarrow> bool" where
  "ge_pow2 p q k = (if 0 \<le> k then q * 2 ^ nat k \<le> p else q \<le> p * 2 ^ nat (- k))"

text \<open>
  \<open>ilog2 p q\<close> is the binary exponent of the positive fraction \<open>p / q\<close>: the \<open>k\<close> with
  \<open>2\<^sup>k \<le> p / q < 2\<^sup>k\<^sup>+\<^sup>1\<close>. The difference of the bit lengths is either that exponent or
  one above it.
\<close>

definition ilog2 :: "nat \<Rightarrow> nat \<Rightarrow> int" where
  "ilog2 p q = (let k = int (bit_length p) - int (bit_length q)
                in if ge_pow2 p q k then k else k - 1)"

text \<open>The integer nearest to \<open>n / d\<close>, a tie going to the even neighbour.\<close>

definition round_half_even :: "nat \<Rightarrow> nat \<Rightarrow> nat" where
  "round_half_even n d =
     (let k = n div d; r = n mod d
      in if 2 * r < d then k else if d < 2 * r then k + 1 else if even k then k else k + 1)"

text \<open>
  Rounding to nearest, ties to even (the only rounding mode Python uses): the binary64
  number nearest to \<open>(-1)\<^sup>s * p / q\<close>. The exponent of the last place is 52 below the
  exponent of the value and never below \<open>- 1074\<close>; when the significand rounds up to
  \<open>2\<^sup>5\<^sup>3\<close> the number is the next power of two; a value that rounds beyond the largest
  finite number is an infinity.
\<close>

definition round_to_double :: "bool \<Rightarrow> nat \<Rightarrow> nat \<Rightarrow> pyfloat" where
  "round_to_double s p q =
     (if p = 0 then Finite s 0 (- 1074)
      else let e = max (ilog2 p q - 52) (- 1074);
               m = (if 0 \<le> e then round_half_even p (q * 2 ^ nat e)
                    else round_half_even (p * 2 ^ nat (- e)) q)
           in if m = 2 ^ 53 then (if 971 < e + 1 then Infinity s else Finite s (2 ^ 52) (e + 1))
              else (if 971 < e then Infinity s else Finite s m e))"

text \<open>
  The conversion of an \<^verbatim>\<open>int\<close> operand to \<^verbatim>\<open>float\<close> (correctly rounded); an integer
  too large for a float raises \<^verbatim>\<open>OverflowError\<close>.
\<close>

definition float_of_int :: "int \<Rightarrow> error + pyfloat" where
  "float_of_int i =
     (case round_to_double (i < 0) (nat \<bar>i\<bar>) 1 of
        Infinity _ \<Rightarrow> Inl OverflowError
      | x \<Rightarrow> Inr x)"

text \<open>
  \<^verbatim>\<open>a / b\<close> on two \<^verbatim>\<open>int\<close>s is true division: the float nearest to the exact quotient,
  \<^verbatim>\<open>ZeroDivisionError\<close> for a zero divisor and \<^verbatim>\<open>OverflowError\<close> for a quotient too
  large for a float.
\<close>

definition int_truediv :: "int \<Rightarrow> int \<Rightarrow> error + pyfloat" where
  "int_truediv a b =
     (if b = 0 then Inl ZeroDivisionError
      else case round_to_double ((a < 0) \<noteq> (b < 0)) (nat \<bar>a\<bar>) (nat \<bar>b\<bar>) of
             Infinity _ \<Rightarrow> Inl OverflowError
           | x \<Rightarrow> Inr x)"

text \<open>
  \<^verbatim>\<open>x * y\<close> on two floats: the exact product, rounded. Float multiplication never
  raises; it overflows to an infinity.
\<close>

fun float_mul :: "pyfloat \<Rightarrow> pyfloat \<Rightarrow> pyfloat" where
  "float_mul (Finite s m e) (Finite t n f) =
     (if 0 \<le> e + f then round_to_double (s \<noteq> t) (m * n * 2 ^ nat (e + f)) 1
      else round_to_double (s \<noteq> t) (m * n) (2 ^ nat (- (e + f))))"
| "float_mul (Finite s m e) (Infinity t) = (if m = 0 then NaN else Infinity (s \<noteq> t))"
| "float_mul (Infinity s) (Finite t n f) = (if n = 0 then NaN else Infinity (s \<noteq> t))"
| "float_mul (Infinity s) (Infinity t) = Infinity (s \<noteq> t)"
| "float_mul NaN y = NaN"
| "float_mul x NaN = NaN"

text \<open>\<^verbatim>\<open>i * x\<close> with an \<^verbatim>\<open>int\<close> and a \<^verbatim>\<open>float\<close>: the integer is converted first.\<close>

definition int_mul_float :: "int \<Rightarrow> pyfloat \<Rightarrow> error + pyfloat" where
  "int_mul_float i x = (case float_of_int i of Inl err \<Rightarrow> Inl err | Inr y \<Rightarrow> Inr (float_mul y x))"

text \<open>
  A decimal literal of the source text: \<open>float_literal d k\<close> is the float nearest to
  \<open>d / 10\<^sup>k\<close>, so \<^verbatim>\<open>0.25\<close> is \<open>float_literal 25 2\<close>.
\<close>

definition float_literal :: "nat \<Rightarrow> nat \<Rightarrow> pyfloat" where
  "float_literal d k = round_to_double False d (10 ^ k)"

text \<open>
  The exact value of a finite float, and the comparison \<^verbatim>\<open>x < y\<close> of two floats
  (false whenever a NaN takes part).
\<close>

fun float_val :: "pyfloat \<Rightarrow> rat" where
  "float_val (Finite s m e) =
     (if s then - 1 else 1) * of_nat m * (if 0 \<le> e then 2 ^ nat e else 1 / 2 ^ nat (- e))"
| "float_val (Infinity s) = 0"
| "float_val NaN = 0"

fun float_lt :: "pyfloat \<Rightarrow> pyfloat \<Rightarrow> bool" where
  "float_lt NaN y = False"
| "float_lt x NaN = False"
| "float_lt (Infinity s) (Infinity t) = (s \<and> \<not> t)"
| "float_lt (Infinity s) (Finite t n f) = s"
| "float_lt (Finite s m e) (Infinity t) = (\<not> t)"
| "float_lt (Finite s m e) (Finite t n f) = (float_val (Finite s m e) < float_val (Finite t n f))"

subsection \<open>Python floats as text\<close>

text \<open>
  \<^verbatim>\<open>str(x)\<close> and \<^verbatim>\<open>repr(x)\<close> of a float, which is also what an empty format field
  \<^verbatim>\<open>{x}\<close> prints: the shortest string of decimal digits that reads back as the same
  float, and of the strings of that length the one nearest to the float. It is printed
  with a decimal point (and \<^verbatim>\<open>.0\<close> for an integral value) when the decimal exponent is
  between \<open>- 4\<close> and \<open>16\<close>, and in exponent notation otherwise.
\<close>

fun ndigits10 :: "nat \<Rightarrow> nat" where
  "ndigits10 n = (if n = 0 then 0 else ndigits10 (n div 10) + 1)"

declare ndigits10.simps [simp del]

definition ge_pow10 :: "nat \<Rightarrow> nat \<Rightarrow> int \<Rightarrow> bool" where
  "ge_pow10 p q k = (if 0 \<le> k then q * 10 ^ nat k \<le> p else q \<le> p * 10 ^ nat (- k))"

text \<open>The decimal exponent of \<open>p / q\<close>: the \<open>k\<close> with \<open>10\<^sup>k \<le> p / q < 10\<^sup>k\<^sup>+\<^sup>1\<close>.\<close>

definition ilog10 :: "nat \<Rightarrow> nat \<Rightarrow> int" where
  "ilog10 p q = (let k = int (ndigits10 p) - int (ndigits10 q)
                 in if ge_pow10 p q k then k else k - 1)"

text \<open>Reading the decimal \<open>c * 10\<^sup>k\<close> back as a float.\<close>

definition decimal_to_double :: "nat \<Rightarrow> int \<Rightarrow> pyfloat" where
  "decimal_to_double c k =
     (if 0 \<le> k then round_to_double False (c * 10 ^ nat k) 1
      else round_to_double False c (10 ^ nat (- k)))"

text \<open>
  The decimal of \<open>n\<close> significant digits for the positive float \<open>m * 2\<^sup>e\<close>: of the two
  \<open>n\<close>-digit decimals around the float, the nearer one that reads back as the float (a tie
  going to the even digit), if there is one. With \<open>force\<close> the reading back is not
  checked.
\<close>

definition candidate :: "bool \<Rightarrow> nat \<Rightarrow> int \<Rightarrow> nat \<Rightarrow> (nat \<times> int) option" where
  "candidate force m e n =
     (let p = (if 0 \<le> e then m * 2 ^ nat e else m);
          q = (if 0 \<le> e then 1 else 2 ^ nat (- e));
          k = ilog10 p q - (int n - 1);
          num = (if 0 \<le> k then p else p * 10 ^ nat (- k));
          den = (if 0 \<le> k then q * 10 ^ nat k else q);
          lo = num div den;
          r = num mod den;
          lo_ok = (force \<or> decimal_to_double lo k = Finite False m e);
          hi_ok = (force \<or> decimal_to_double (lo + 1) k = Finite False m e);
          lo_nearer = (2 * r < den \<or> (2 * r = den \<and> even lo))
      in if lo_ok \<and> (lo_nearer \<or> \<not> hi_ok) then Some (lo, k)
         else if hi_ok then Some (lo + 1, k)
         else None)"

text \<open>
  The search for the shortest decimal, from \<open>n\<close> digits upwards. Seventeen digits always
  read back as the same float, so the seventeenth round takes the nearest decimal as it is.
\<close>

function shortest :: "nat \<Rightarrow> int \<Rightarrow> nat \<Rightarrow> nat \<times> int" where
  "shortest m e n =
     (let c = candidate (17 \<le> n) m e n
      in if c = None \<and> n < 17 then shortest m e (n + 1)
         else (case c of Some d \<Rightarrow> d | None \<Rightarrow> (0, 0)))"
  by pat_completeness auto
termination
  by (relation "measure (\<lambda>(m, e, n). 17 - n)") auto

declare shortest.simps [simp del]

definition strip_zeros :: "string \<Rightarrow> string" where
  "strip_zeros ds = rev (dropWhile (\<lambda>c. c = CHR ''0'') (rev ds))"

text \<open>
  The layout of the digits \<open>ds\<close> with the decimal point after the first \<open>decpt\<close> of them
  (the value is \<open>0.ds * 10\<^sup>d\<^sup>e\<^sup>c\<^sup>p\<^sup>t\<close>).
\<close>

definition format_repr :: "string \<Rightarrow> int \<Rightarrow> string" where
  "format_repr ds decpt =
     (if decpt \<le> - 4 \<or> 16 < decpt then
        hd ds # (if tl ds = [] then [] else CHR ''.'' # tl ds) @ ''e''
          @ (if decpt - 1 < 0 then ''-'' else ''+'')
          @ (let x = str_nat (nat \<bar>decpt - 1\<bar>) in if length x < 2 then CHR ''0'' # x else x)
      else if decpt \<le> 0 then ''0.'' @ replicate (nat (- decpt)) (CHR ''0'') @ ds
      else if int (length ds) \<le> decpt then
        ds @ replicate (nat decpt - length ds) (CHR ''0'') @ ''.0''
      else take (nat decpt) ds @ ''.'' @ drop (nat decpt) ds)"

fun float_repr :: "pyfloat \<Rightarrow> string" where
  "float_repr NaN = ''nan''"
| "float_repr (Infinity s) = (if s then ''-inf'' else ''inf'')"
| "float_repr (Finite s m e) =
     (if s then ''-'' else []) @
     (if m = 0 then ''0.0''
      else let (c, k) = shortest m e 1; ds = str_nat c
           in format_repr (strip_zeros ds) (int (length ds) + k))"

declare float_repr.simps [simp del]

subsection \<open>\<^verbatim>\<open>str.format\<close>\<close>

text \<open>
  The values the script passes to \<^verbatim>\<open>format\<close> are an \<^verbatim>\<open>int\<close> and floats. A
  replacement field with no conversion and no format specification prints its value as
  \<^verbatim>\<open>str\<close> does.
\<close>

datatype pyval = PyInt int | PyFloat pyfloat

fun py_str :: "pyval \<Rightarrow> string" where
  "py_str (PyInt i) = str_int i"
| "py_str (PyFloat x) = float_repr x"

text \<open>
  \<open>format_scan kw st t\<close> reads the rest \<open>t\<close> of a template. Outside a field (\<open>st = None\<close>)
  text is copied, \<^verbatim>\<open>{{\<close> and \<^verbatim>\<open>}}\<close> stand for one brace, a single \<^verbatim>\<open>}\<close> raises
  \<^verbatim>\<open>ValueError\<close>, and \<^verbatim>\<open>{\<close> opens a field. Inside a field (\<open>st = Some n\<close>, with the
  name read so far in reverse) the name runs to the closing brace and is looked up among
  the keyword arguments; a missing keyword raises \<^verbatim>\<open>KeyError\<close>, an unclosed field
  \<^verbatim>\<open>ValueError\<close>. Fields are plain keyword names, as in the script's template.
\<close>

fun format_scan :: "(string \<times> pyval) list \<Rightarrow> string option \<Rightarrow> string \<Rightarrow> error + string" where
  "format_scan kw None [] = Inr []"
| "format_scan kw (Some n) [] = Inl ValueError"
| "format_scan kw None (c # cs) =
     (if c = CHR ''{'' then
        (case cs of
           d # ds \<Rightarrow>
             if d = CHR ''{'' then map_sum id ((#) c) (format_scan kw None ds)
             else format_scan kw (Some []) cs
         | [] \<Rightarrow> Inl ValueError)
      else if c = CHR ''}'' then
        (case cs of
           d # ds \<Rightarrow>
             if d = CHR ''}'' then map_sum id ((#) c) (format_scan kw None ds)
             else Inl ValueError
         | [] \<Rightarrow> Inl ValueError)
      else map_sum id ((#) c) (format_scan kw None cs))"
| "format_scan kw (Some n) (c # cs) =
     (if c = CHR ''}'' then
        (case map_of kw (rev n) of
           None \<Rightarrow> Inl KeyError
         | Some v \<Rightarrow> map_sum id ((@) (py_str v)) (format_scan kw None cs))
      else if c = CHR ''{'' then Inl ValueError
      else format_scan kw (Some (c # n)) cs)"

definition format_str :: "string \<Rightarrow> (string \<times> pyval) list \<Rightarrow> error + string" where
  "format_str t kw = format_scan kw None t"

subsection \<open>Paths, the file system and standard output\<close>

text \<open>
  A \<^verbatim>\<open>pathlib.Path\<close> is the list of its parts; an absolute path starts with the part
  \<^verbatim>\<open>/\<close>. \<open>parent\<close> drops the last part (the root is its own parent), \<^verbatim>\<open>p / name\<close>
  appends a part, and \<open>path_str\<close> is \<^verbatim>\<open>str(p)\<close>.
\<close>

type_synonym path = "string list"

definition parent :: "path \<Rightarrow> path" where
  "parent p = (if p = [''/''] then p else butlast p)"

fun join_parts :: "string list \<Rightarrow> string" where
  "join_parts [] = []"
| "join_parts [a] = a"
| "join_parts (a # b # bs) = a @ ''/'' @ join_parts (b # bs)"

definition path_str :: "path \<Rightarrow> string" where
  "path_str p =
     (case p of
        [] \<Rightarrow> ''.''
      | a # as \<Rightarrow> if a = ''/'' then ''/'' @ join_parts as else join_parts p)"

text \<open>
  The part of the world the script acts on: the directories and the files (with their
  text) that exist, and the lines printed so far. \<open>write_log\<close> is not read by anything; it
  records the completed writes in their order, so that theorems can speak about what a run
  has written.
\<close>

record world =
  dirs :: "path set"
  files :: "path \<rightharpoonup> string"
  stdout :: "string list"
  write_log :: "(path \<times> string) list"

text \<open>
  Whether a call to the operating system fails is not decided by the script: the
  environment says whether creating the directory fails, and for each path whether
  opening it for writing fails, or the write after a successful open.
\<close>

datatype fault = NoFault | OpenFault | WriteFault

record env =
  mkdir_fault :: bool
  file_fault :: "path \<Rightarrow> fault"

text \<open>
  A statement takes the world to a new world and either completes (\<open>None\<close>) or raises.
  \<open>seq\<close> is one statement after another: when the first raises, the second does not run.
\<close>

type_synonym stmt = "world \<Rightarrow> error option \<times> world"

definition skip :: stmt where
  "skip w = (None, w)"

definition seq :: "stmt \<Rightarrow> stmt \<Rightarrow> stmt" where
  "seq f g w = (case f w of (None, w') \<Rightarrow> g w' | (Some err, w') \<Rightarrow> (Some err, w'))"

fun for_each :: "('a \<Rightarrow> stmt) \<Rightarrow> 'a list \<Rightarrow> stmt" where
  "for_each body [] w = (None, w)"
| "for_each body (x # xs) w = seq (body x) (for_each body xs) w"

text \<open>\<^verbatim>\<open>p.mkdir(parents=True, exist_ok=True)\<close>: the directory and all its parents exist afterwards.\<close>

definition mkdir_parents :: "env \<Rightarrow> path \<Rightarrow> stmt" where
  "mkdir_parents en p w =
     (if mkdir_fault en then (Some OSError, w)
      else (None, w\<lparr>dirs := dirs w \<union> set (prefixes p)\<rparr>))"

text \<open>
  \<^verbatim>\<open>with open(p, 'w') as f: f.write(s)\<close>: opening creates the file or empties it, the
  write gives it the text \<open>s\<close>.
\<close>

definition open_write :: "env \<Rightarrow> path \<Rightarrow> string \<Rightarrow> stmt" where
  "open_write en p s w =
     (case file_fault en p of
        OpenFault \<Rightarrow> (Some OSError, w)
      | WriteFault \<Rightarrow> (Some OSError, w\<lparr>files := (files w)(p \<mapsto> [])\<rparr>)
      | NoFault \<Rightarrow> (None, w\<lparr>files := (files w)(p \<mapsto> s), write_log := write_log w @ [(p, s)]\<rparr>))"

definition print_line :: "string \<Rightarrow> stmt" where
  "print_line s w = (None, w\<lparr>stdout := stdout w @ [s]\<rparr>)"

subsection \<open>The script\<close>

definition svg_template :: string where
  \<open>svg_template =
     ''<?xml version="1.0" encoding="UTF-8"?>'' @ [CHR 0x0A] @
     ''<svg width="{size}" height="{size}" viewBox="0 0 {size} {size}" xmlns="http://www.w3.org/2000/svg">'' @ [CHR 0x0A] @
     ''  <polygon points="{x1},{y1} {x2},{y2} {x3},{y3}" fill="black"/>'' @ [CHR 0x0A] @
     ''</svg>''\<close>

definition sizes :: "int list" where
  "sizes = [16, 32, 64, 128, 256, 512, 1024]"

text \<open>
  \<open>file\<close> is the path of the script itself (\<^verbatim>\<open>__file__\<close>), the only thing the script
  takes from outside.
\<close>

definition root :: "path \<Rightarrow> path" where
  "root file = parent (parent file)"

definition iconset_dir :: "path \<Rightarrow> path" where
  "iconset_dir file = root file @ [''Resources''] @ [''AppIcon.iconset'']"

text \<open>The triangle's coordinates, lines 20 to 24.\<close>

definition center_x :: "int \<Rightarrow> error + pyfloat" where
  "center_x sz = int_truediv sz 2"

definition top_y :: "int \<Rightarrow> error + pyfloat" where
  "top_y sz = int_mul_float sz (float_literal 25 2)"

definition bottom_y :: "int \<Rightarrow> error + pyfloat" where
  "bottom_y sz = int_mul_float sz (float_literal 75 2)"

definition left_x :: "int \<Rightarrow> error + pyfloat" where
  "left_x sz = int_mul_float sz (float_literal 2 1)"

definition right_x :: "int \<Rightarrow> error + pyfloat" where
  "right_x sz = int_mul_float sz (float_literal 8 1)"

text \<open>
  Lines 20 to 32: the five coordinates are computed in the script's order (the first
  exception ends the computation) and the template is filled in.
\<close>

definition svg_content :: "int \<Rightarrow> error + string" where
  "svg_content sz =
     (case center_x sz of Inl err \<Rightarrow> Inl err | Inr cx \<Rightarrow>
      case top_y sz of Inl err \<Rightarrow> Inl err | Inr ty \<Rightarrow>
      case bottom_y sz of Inl err \<Rightarrow> Inl err | Inr btm \<Rightarrow>
      case left_x sz of Inl err \<Rightarrow> Inl err | Inr lx \<Rightarrow>
      case right_x sz of Inl err \<Rightarrow> Inl err | Inr rx \<Rightarrow>
        format_str svg_template
          [(''size'', PyInt sz),
           (''x1'', PyFloat cx), (''y1'', PyFloat btm),
           (''x2'', PyFloat lx), (''y2'', PyFloat ty),
           (''x3'', PyFloat rx), (''y3'', PyFloat ty)])"

text \<open>The two file names, lines 36 and 42; \<^verbatim>\<open>//\<close> is floor division.\<close>

definition icon_name :: "int \<Rightarrow> string" where
  "icon_name sz = ''icon_'' @ str_int sz @ ''x'' @ str_int sz @ ''.svg''"

definition icon_name_2x :: "int \<Rightarrow> string" where
  "icon_name_2x sz =
     ''icon_'' @ str_int (sz div 2) @ ''x'' @ str_int (sz div 2) @ ''@2x.svg''"

text \<open>The body of the loop, lines 19 to 44, for one size (\<open>sz\<close> is the loop variable \<^verbatim>\<open>size\<close>).\<close>

definition loop_body :: "env \<Rightarrow> path \<Rightarrow> int \<Rightarrow> stmt" where
  "loop_body en dir sz w =
     (case svg_content sz of
        Inl err \<Rightarrow> (Some err, w)
      | Inr content \<Rightarrow>
          seq (if sz \<le> 512 then open_write en (dir @ [icon_name sz]) content else skip)
              (if 32 \<le> sz \<and> sz \<le> 512
               then open_write en (dir @ [icon_name_2x sz]) content else skip) w)"

text \<open>The whole script (the operation the specification calls GenerateAll).\<close>

definition generate_icon :: "env \<Rightarrow> path \<Rightarrow> stmt" where
  "generate_icon en file =
     seq (mkdir_parents en (iconset_dir file))
    (seq (for_each (loop_body en (iconset_dir file)) sizes)
    (seq (print_line (''SVG icons created in '' @ path_str (iconset_dir file)))
         (print_line ''Note: You'll need to convert these to PNG manually using a tool like Inkscape or ImageMagick'')))"

section \<open>The notions of the specification\<close>

text \<open>
  The specification speaks of file names of two patterns, of an SVG schema, of the
  attributes of the SVG text and of the files a run produces. These notions are defined
  here from the specification's wording, independently of the script, so that the theorems
  can compare the script with them.
\<close>

text \<open>
  The nominal file \<^verbatim>\<open>icon_{S}x{S}.svg\<close> and the double-density file
  \<^verbatim>\<open>icon_{N}x{N}@2x.svg\<close>.
\<close>

definition nominal_file :: "int \<Rightarrow> string" where
  "nominal_file S = ''icon_'' @ str_int S @ ''x'' @ str_int S @ ''.svg''"

definition retina_file :: "int \<Rightarrow> string" where
  "retina_file N = ''icon_'' @ str_int N @ ''x'' @ str_int N @ ''@2x.svg''"

text \<open>
  The SVG schema of section 6 of the specification, with the text of the size and of the six
  coordinates as parameters.
\<close>

definition svg_schema ::
  "string \<Rightarrow> string \<Rightarrow> string \<Rightarrow> string \<Rightarrow> string \<Rightarrow> string \<Rightarrow> string \<Rightarrow> string" where
  \<open>svg_schema S x1 y1 x2 y2 x3 y3 =
     ''<?xml version="1.0" encoding="UTF-8"?>'' @ [CHR 0x0A] @
     ''<svg width="'' @ S @ ''" height="'' @ S @ ''" viewBox="0 0 '' @ S @ '' '' @ S @
     ''" xmlns="http://www.w3.org/2000/svg">'' @ [CHR 0x0A] @
     ''  <polygon points="'' @ x1 @ '','' @ y1 @ '' '' @ x2 @ '','' @ y2 @ '' '' @ x3 @ '','' @ y3 @
     ''" fill="black"/>'' @ [CHR 0x0A] @
     ''</svg>''\<close>

text \<open>
  The value of an attribute in a text: what stands between \<^verbatim>\<open> name="\<close> (at its first
  occurrence) and the next double quote.
\<close>

fun find_after :: "string \<Rightarrow> string \<Rightarrow> string option" where
  "find_after pat [] = (if pat = [] then Some [] else None)"
| "find_after pat (c # cs) =
     (if prefix pat (c # cs) then Some (drop (length pat) (c # cs)) else find_after pat cs)"

definition attr :: "string \<Rightarrow> string \<Rightarrow> string option" where
  "attr name doc =
     map_option (takeWhile (\<lambda>c. c \<noteq> CHR 0x22)) (find_after ('' '' @ name @ [CHR ''='', CHR 0x22]) doc)"

text \<open>
  The eleven files of a complete run, in the order in which they are written, and their
  paths.
\<close>

definition icon_files :: "string list" where
  "icon_files =
     [''icon_16x16.svg'',
      ''icon_32x32.svg'', ''icon_16x16@2x.svg'',
      ''icon_64x64.svg'', ''icon_32x32@2x.svg'',
      ''icon_128x128.svg'', ''icon_64x64@2x.svg'',
      ''icon_256x256.svg'', ''icon_128x128@2x.svg'',
      ''icon_512x512.svg'', ''icon_256x256@2x.svg'']"

definition targets :: "path \<Rightarrow> path list" where
  "targets file = map (\<lambda>name. iconset_dir file @ [name]) icon_files"

text \<open>The writes a run has done: what it has added to the log of writes.\<close>

definition writes_of :: "world \<Rightarrow> world \<Rightarrow> (path \<times> string) list" where
  "writes_of w w' = drop (length (write_log w)) (write_log w')"

text \<open>The two lines a complete run prints.\<close>

definition completion_messages :: "path \<Rightarrow> string list" where
  "completion_messages file =
     [''SVG icons created in '' @ path_str (iconset_dir file),
      ''Note: You'll need to convert these to PNG manually using a tool like Inkscape or ImageMagick'']"

text \<open>
  An environment in which nothing the script asks of the operating system fails: neither
  the creation of the directory nor a write to one of the eleven paths.
\<close>

definition no_faults :: "env \<Rightarrow> path \<Rightarrow> bool" where
  "no_faults en file =
     (\<not> mkdir_fault en \<and> list_all (\<lambda>p. file_fault en p = NoFault) (targets file))"

text \<open>
  A concrete run: the script installed as \<^verbatim>\<open>/app/Scripts/generate-icon.py\<close>, an
  environment without faults, and a file system in which nothing exists yet.
\<close>

definition file_example :: path where
  "file_example = [''/'', ''app'', ''Scripts'', ''generate-icon.py'']"

definition env_ok :: env where
  "env_ok = \<lparr>mkdir_fault = False, file_fault = (\<lambda>p. NoFault)\<rparr>"

definition world_empty :: world where
  "world_empty = \<lparr>dirs = {}, files = Map.empty, stdout = [], write_log = []\<rparr>"

text \<open>An environment in which the write to \<open>p\<close>, and nothing else, fails.\<close>

definition env_failing :: "path \<Rightarrow> env" where
  "env_failing p = \<lparr>mkdir_fault = False, file_fault = (\<lambda>q. if q = p then WriteFault else NoFault)\<rparr>"

subsection \<open>Auxiliary notions of the proofs\<close>

definition is_digit :: "char \<Rightarrow> bool" where
  "is_digit c = (c \<in> set ''0123456789'')"

text \<open>A list of writes, done one after the other.\<close>

definition write_all :: "env \<Rightarrow> (path \<times> string) list \<Rightarrow> stmt" where
  "write_all en = for_each (\<lambda>(p, s). open_write en p s)"

text \<open>The writes the loop body attempts for one size, and those of the whole loop.\<close>

definition attempts :: "path \<Rightarrow> int \<Rightarrow> string \<Rightarrow> (path \<times> string) list" where
  "attempts dir sz content =
     (if sz \<le> 512 then [(dir @ [icon_name sz], content)] else []) @
     (if 32 \<le> sz \<and> sz \<le> 512 then [(dir @ [icon_name_2x sz], content)] else [])"

definition plan :: "path \<Rightarrow> int list \<Rightarrow> (path \<times> string) list" where
  "plan dir szs =
     concat (map (\<lambda>sz. case svg_content sz of Inl err \<Rightarrow> [] | Inr c \<Rightarrow> attempts dir sz c) szs)"

text \<open>The world after the writes \<open>ws\<close> have all succeeded, and after a write to \<open>p\<close> has failed.\<close>

definition wrote :: "(path \<times> string) list \<Rightarrow> world \<Rightarrow> world" where
  "wrote ws w = w\<lparr>files := files w ++ map_of (rev ws), write_log := write_log w @ ws\<rparr>"

definition crashed :: "env \<Rightarrow> path \<Rightarrow> world \<Rightarrow> world" where
  "crashed en p w = (if file_fault en p = WriteFault then w\<lparr>files := (files w)(p \<mapsto> [])\<rparr> else w)"

text \<open>The text rendered for a size.\<close>

definition svg_of :: "int \<Rightarrow> string" where
  "svg_of sz = (case svg_content sz of Inl err \<Rightarrow> [] | Inr c \<Rightarrow> c)"

text \<open>The world after the directory has been created, and after the two lines have been printed.\<close>

definition made_dirs :: "path \<Rightarrow> world \<Rightarrow> world" where
  "made_dirs file w = w\<lparr>dirs := dirs w \<union> set (prefixes (iconset_dir file))\<rparr>"

definition printed :: "path \<Rightarrow> world \<Rightarrow> world" where
  "printed file w = w\<lparr>stdout := stdout w @ completion_messages file\<rparr>"

section \<open>Lemmas\<close>

subsection \<open>The text of an integer determines the integer\<close>

lemma digit_char_cases:
  assumes "d < 10"
  shows "d = 0 \<or> d = 1 \<or> d = 2 \<or> d = 3 \<or> d = 4 \<or> d = 5 \<or> d = 6 \<or> d = 7 \<or> d = 8 \<or> d = (9::nat)"
  using assms by arith

lemma of_char_digit_char: "d < 10 \<Longrightarrow> of_char (digit_char d) = 48 + d"
  using digit_char_cases[of d] by (auto simp: digit_char_def)

lemma is_digit_digit_char: "d < 10 \<Longrightarrow> is_digit (digit_char d)"
  using digit_char_cases[of d] by (auto simp: digit_char_def is_digit_def)

lemma digit_char_inj:
  assumes "a < 10" "b < 10" "digit_char a = digit_char b"
  shows "a = b"
proof -
  have "(of_char (digit_char a) :: nat) = of_char (digit_char b)" using assms(3) by simp
  then show ?thesis using assms(1,2) by (simp add: of_char_digit_char)
qed

lemma str_nat_digits: "\<forall>c \<in> set (str_nat n). is_digit c"
proof (induction n rule: str_nat.induct)
  case (1 n)
  show ?case
  proof (cases "n < 10")
    case True
    then show ?thesis by (subst str_nat.simps) (simp add: is_digit_digit_char)
  next
    case False
    then show ?thesis using 1 by (subst str_nat.simps) (simp add: is_digit_digit_char)
  qed
qed

lemma str_nat_nonempty: "str_nat n \<noteq> []"
  by (subst str_nat.simps) simp

lemma str_nat_length1: "length (str_nat n) = Suc 0 \<longleftrightarrow> n < 10"
proof (cases "n < 10")
  case True
  then show ?thesis by (subst str_nat.simps) simp
next
  case False
  have "length (str_nat (n div 10)) \<noteq> 0" using str_nat_nonempty by simp
  then show ?thesis using False by (subst str_nat.simps) simp
qed

lemma str_nat_inj: "str_nat a = str_nat b \<Longrightarrow> a = b"
proof (induction a arbitrary: b rule: str_nat.induct)
  case (1 n)
  show ?case
  proof (cases "n < 10")
    case True
    then have "length (str_nat b) = Suc 0" using 1(2) str_nat_length1[of n] by simp
    then have b: "b < 10" by (simp add: str_nat_length1)
    have "[digit_char n] = [digit_char b]"
      using 1(2) True b str_nat.simps[of n] str_nat.simps[of b] by simp
    then show ?thesis using True b digit_char_inj by simp
  next
    case False
    then have "length (str_nat b) \<noteq> Suc 0" using 1(2) str_nat_length1[of n] by simp
    then have b: "\<not> b < 10" by (simp add: str_nat_length1)
    have "str_nat (n div 10) @ [digit_char (n mod 10)] = str_nat (b div 10) @ [digit_char (b mod 10)]"
      using 1(2) False b str_nat.simps[of n] str_nat.simps[of b] by simp
    then have e: "str_nat (n div 10) = str_nat (b div 10)" "digit_char (n mod 10) = digit_char (b mod 10)"
      by simp_all
    have "n div 10 = b div 10" using 1(1)[OF False e(1)] .
    moreover have "n mod 10 = b mod 10" using e(2) digit_char_inj[of "n mod 10" "b mod 10"] by simp
    ultimately show ?thesis by (metis div_mult_mod_eq)
  qed
qed

lemma str_int_chars: "\<forall>c \<in> set (str_int i). is_digit c \<or> c = CHR ''-''"
  using str_nat_digits by (auto simp: str_int_def)

lemma str_int_nonempty: "str_int i \<noteq> []"
  by (simp add: str_int_def str_nat_nonempty)

lemma str_int_inj: "str_int a = str_int b \<Longrightarrow> a = b"
proof -
  assume eq: "str_int a = str_int b"
  have nd: "\<not> is_digit (CHR ''-'')" by (simp add: is_digit_def)
  have hd_nat: "\<And>n. hd (str_nat n) \<noteq> CHR ''-''"
    using str_nat_digits str_nat_nonempty nd by (metis hd_in_set)
  show ?thesis
  proof (cases "a < 0")
    case True
    have "b < 0"
    proof (rule ccontr)
      assume "\<not> b < 0"
      then have "hd (str_int b) \<noteq> CHR ''-''" using hd_nat by (simp add: str_int_def)
      moreover have "hd (str_int a) = CHR ''-''" using True by (simp add: str_int_def)
      ultimately show False using eq by simp
    qed
    then have "str_nat (nat (- a)) = str_nat (nat (- b))" using eq True by (simp add: str_int_def)
    then have "nat (- a) = nat (- b)" by (rule str_nat_inj)
    then show ?thesis using True \<open>b < 0\<close> by simp
  next
    case False
    have "\<not> b < 0"
    proof
      assume "b < 0"
      then have "hd (str_int b) = CHR ''-''" by (simp add: str_int_def)
      moreover have "hd (str_int a) \<noteq> CHR ''-''" using False hd_nat by (simp add: str_int_def)
      ultimately show False using eq by simp
    qed
    then have "str_nat (nat a) = str_nat (nat b)" using eq False by (simp add: str_int_def)
    then have "nat a = nat b" by (rule str_nat_inj)
    then show ?thesis using False \<open>\<not> b < 0\<close> by simp
  qed
qed

lemma split_at_x:
  assumes "CHR ''x'' \<notin> set a" "CHR ''x'' \<notin> set b" "a @ CHR ''x'' # r = b @ CHR ''x'' # t"
  shows "a = b \<and> r = t"
proof -
  have ta: "takeWhile (\<lambda>c. c \<noteq> CHR ''x'') (a @ CHR ''x'' # r) = a"
    using assms(1) by (induction a) auto
  have tb: "takeWhile (\<lambda>c. c \<noteq> CHR ''x'') (b @ CHR ''x'' # t) = b"
    using assms(2) by (induction b) auto
  from ta tb have "a = b" using assms(3) by simp
  then show ?thesis using assms(3) by simp
qed

lemma str_int_no_x: "CHR ''x'' \<notin> set (str_int i)"
proof -
  have "\<not> is_digit (CHR ''x'')" by (simp add: is_digit_def)
  then show ?thesis using str_int_chars[of i] by blast
qed

lemma nominal_file_inj: "nominal_file S = nominal_file T \<Longrightarrow> S = T"
proof -
  assume "nominal_file S = nominal_file T"
  then have "str_int S @ CHR ''x'' # (str_int S @ ''.svg'') = str_int T @ CHR ''x'' # (str_int T @ ''.svg'')"
    by (simp add: nominal_file_def)
  from split_at_x[OF str_int_no_x str_int_no_x this]
  show ?thesis by (simp add: str_int_inj)
qed

lemma retina_file_inj: "retina_file S = retina_file T \<Longrightarrow> S = T"
proof -
  assume "retina_file S = retina_file T"
  then have "str_int S @ CHR ''x'' # (str_int S @ ''@2x.svg'') = str_int T @ CHR ''x'' # (str_int T @ ''@2x.svg'')"
    by (simp add: retina_file_def)
  from split_at_x[OF str_int_no_x str_int_no_x this]
  show ?thesis by (simp add: str_int_inj)
qed

lemma nominal_not_retina: "nominal_file S \<noteq> retina_file N"
proof
  assume "nominal_file S = retina_file N"
  then have "str_int S @ CHR ''x'' # (str_int S @ ''.svg'') = str_int N @ CHR ''x'' # (str_int N @ ''@2x.svg'')"
    by (simp add: nominal_file_def retina_file_def)
  from split_at_x[OF str_int_no_x str_int_no_x this]
  have a: "str_int S = str_int N" and b: "str_int S @ ''.svg'' = str_int N @ ''@2x.svg''"
    by blast+
  from b have "length (str_int S @ ''.svg'') = length (str_int N @ ''@2x.svg'')"
    by (rule arg_cong)
  then show False using a by simp
qed

subsection \<open>The coordinates and their text for the seven sizes\<close>

lemmas float_eval = int_mul_float_def float_literal_def float_of_int_def int_truediv_def
  round_to_double_def ilog2_def ge_pow2_def bit_length.simps round_half_even_def Let_def

lemmas repr_eval = float_repr.simps shortest.simps candidate_def decimal_to_double_def ilog10_def ge_pow10_def
  ndigits10.simps strip_zeros_def format_repr_def str_nat.simps digit_char_def
  round_to_double_def ilog2_def ge_pow2_def bit_length.simps round_half_even_def Let_def

lemma center_x_sizes:
  "center_x 16 = Inr (Finite False 4503599627370496 (- 49))"
  "center_x 32 = Inr (Finite False 4503599627370496 (- 48))"
  "center_x 64 = Inr (Finite False 4503599627370496 (- 47))"
  "center_x 128 = Inr (Finite False 4503599627370496 (- 46))"
  "center_x 256 = Inr (Finite False 4503599627370496 (- 45))"
  "center_x 512 = Inr (Finite False 4503599627370496 (- 44))"
  "center_x 1024 = Inr (Finite False 4503599627370496 (- 43))"
  by (simp_all add: center_x_def float_eval)

lemma top_y_sizes:
  "top_y 16 = Inr (Finite False 4503599627370496 (- 50))"
  "top_y 32 = Inr (Finite False 4503599627370496 (- 49))"
  "top_y 64 = Inr (Finite False 4503599627370496 (- 48))"
  "top_y 128 = Inr (Finite False 4503599627370496 (- 47))"
  "top_y 256 = Inr (Finite False 4503599627370496 (- 46))"
  "top_y 512 = Inr (Finite False 4503599627370496 (- 45))"
  "top_y 1024 = Inr (Finite False 4503599627370496 (- 44))"
  by (simp_all add: top_y_def float_eval)

lemma bottom_y_sizes:
  "bottom_y 16 = Inr (Finite False 6755399441055744 (- 49))"
  "bottom_y 32 = Inr (Finite False 6755399441055744 (- 48))"
  "bottom_y 64 = Inr (Finite False 6755399441055744 (- 47))"
  "bottom_y 128 = Inr (Finite False 6755399441055744 (- 46))"
  "bottom_y 256 = Inr (Finite False 6755399441055744 (- 45))"
  "bottom_y 512 = Inr (Finite False 6755399441055744 (- 44))"
  "bottom_y 1024 = Inr (Finite False 6755399441055744 (- 43))"
  by (simp_all add: bottom_y_def float_eval)

lemma left_x_sizes:
  "left_x 16 = Inr (Finite False 7205759403792794 (- 51))"
  "left_x 32 = Inr (Finite False 7205759403792794 (- 50))"
  "left_x 64 = Inr (Finite False 7205759403792794 (- 49))"
  "left_x 128 = Inr (Finite False 7205759403792794 (- 48))"
  "left_x 256 = Inr (Finite False 7205759403792794 (- 47))"
  "left_x 512 = Inr (Finite False 7205759403792794 (- 46))"
  "left_x 1024 = Inr (Finite False 7205759403792794 (- 45))"
  by (simp_all add: left_x_def float_eval)

lemma right_x_sizes:
  "right_x 16 = Inr (Finite False 7205759403792794 (- 49))"
  "right_x 32 = Inr (Finite False 7205759403792794 (- 48))"
  "right_x 64 = Inr (Finite False 7205759403792794 (- 47))"
  "right_x 128 = Inr (Finite False 7205759403792794 (- 46))"
  "right_x 256 = Inr (Finite False 7205759403792794 (- 45))"
  "right_x 512 = Inr (Finite False 7205759403792794 (- 44))"
  "right_x 1024 = Inr (Finite False 7205759403792794 (- 43))"
  by (simp_all add: right_x_def float_eval)

lemma float_repr_3_2: "float_repr (Finite False 7205759403792794 (- 51)) = ''3.2''"
  by (simp add: repr_eval cong: let_weak_cong)

lemma float_repr_4_0: "float_repr (Finite False 4503599627370496 (- 50)) = ''4.0''"
  by (simp add: repr_eval cong: let_weak_cong)

lemma float_repr_6_4: "float_repr (Finite False 7205759403792794 (- 50)) = ''6.4''"
  by (simp add: repr_eval cong: let_weak_cong)

lemma float_repr_8_0: "float_repr (Finite False 4503599627370496 (- 49)) = ''8.0''"
  by (simp add: repr_eval cong: let_weak_cong)

lemma float_repr_12_0: "float_repr (Finite False 6755399441055744 (- 49)) = ''12.0''"
  by (simp add: repr_eval cong: let_weak_cong)

lemma float_repr_12_8: "float_repr (Finite False 7205759403792794 (- 49)) = ''12.8''"
  by (simp add: repr_eval cong: let_weak_cong)

lemma float_repr_16_0: "float_repr (Finite False 4503599627370496 (- 48)) = ''16.0''"
  by (simp add: repr_eval cong: let_weak_cong)

lemma float_repr_24_0: "float_repr (Finite False 6755399441055744 (- 48)) = ''24.0''"
  by (simp add: repr_eval cong: let_weak_cong)

lemma float_repr_25_6: "float_repr (Finite False 7205759403792794 (- 48)) = ''25.6''"
  by (simp add: repr_eval cong: let_weak_cong)

lemma float_repr_32_0: "float_repr (Finite False 4503599627370496 (- 47)) = ''32.0''"
  by (simp add: repr_eval cong: let_weak_cong)

lemma float_repr_48_0: "float_repr (Finite False 6755399441055744 (- 47)) = ''48.0''"
  by (simp add: repr_eval cong: let_weak_cong)

lemma float_repr_51_2: "float_repr (Finite False 7205759403792794 (- 47)) = ''51.2''"
  by (simp add: repr_eval cong: let_weak_cong)

lemma float_repr_64_0: "float_repr (Finite False 4503599627370496 (- 46)) = ''64.0''"
  by (simp add: repr_eval cong: let_weak_cong)

lemma float_repr_96_0: "float_repr (Finite False 6755399441055744 (- 46)) = ''96.0''"
  by (simp add: repr_eval cong: let_weak_cong)

lemma float_repr_102_4: "float_repr (Finite False 7205759403792794 (- 46)) = ''102.4''"
  by (simp add: repr_eval cong: let_weak_cong)

lemma float_repr_128_0: "float_repr (Finite False 4503599627370496 (- 45)) = ''128.0''"
  by (simp add: repr_eval cong: let_weak_cong)

lemma float_repr_192_0: "float_repr (Finite False 6755399441055744 (- 45)) = ''192.0''"
  by (simp add: repr_eval cong: let_weak_cong)

lemma float_repr_204_8: "float_repr (Finite False 7205759403792794 (- 45)) = ''204.8''"
  by (simp add: repr_eval cong: let_weak_cong)

lemma float_repr_256_0: "float_repr (Finite False 4503599627370496 (- 44)) = ''256.0''"
  by (simp add: repr_eval cong: let_weak_cong)

lemma float_repr_384_0: "float_repr (Finite False 6755399441055744 (- 44)) = ''384.0''"
  by (simp add: repr_eval cong: let_weak_cong)

lemma float_repr_409_6: "float_repr (Finite False 7205759403792794 (- 44)) = ''409.6''"
  by (simp add: repr_eval cong: let_weak_cong)

lemma float_repr_512_0: "float_repr (Finite False 4503599627370496 (- 43)) = ''512.0''"
  by (simp add: repr_eval cong: let_weak_cong)

lemma float_repr_768_0: "float_repr (Finite False 6755399441055744 (- 43)) = ''768.0''"
  by (simp add: repr_eval cong: let_weak_cong)

lemma float_repr_819_2: "float_repr (Finite False 7205759403792794 (- 43)) = ''819.2''"
  by (simp add: repr_eval cong: let_weak_cong)

subsection \<open>The loop as a sequence of writes\<close>

lemma seq_skip_left: "seq skip g = g"
  by (rule ext) (simp add: seq_def skip_def)

lemma seq_skip_right: "seq f skip = f"
  by (rule ext) (simp add: seq_def skip_def split: prod.splits option.splits)

lemma seq_assoc: "seq (seq f g) h = seq f (seq g h)"
  by (rule ext) (simp add: seq_def split: prod.splits option.splits)

lemma for_each_Nil: "for_each body [] = skip"
  by (rule ext) (simp add: skip_def)

lemma for_each_Cons: "for_each body (x # xs) = seq (body x) (for_each body xs)"
  by (rule ext) simp

lemma for_each_append: "for_each body (xs @ ys) = seq (for_each body xs) (for_each body ys)"
  by (induction xs) (simp_all add: for_each_Nil for_each_Cons seq_skip_left seq_assoc)

lemma write_all_Nil: "write_all en [] = skip"
  by (simp add: write_all_def for_each_Nil)

lemma write_all_Cons: "write_all en ((p, s) # ws) = seq (open_write en p s) (write_all en ws)"
  by (simp add: write_all_def for_each_Cons)

lemma write_all_append: "write_all en (xs @ ys) = seq (write_all en xs) (write_all en ys)"
  by (simp add: write_all_def for_each_append)

lemma loop_body_attempts:
  assumes "svg_content sz = Inr c"
  shows "loop_body en dir sz = write_all en (attempts dir sz c)"
  by (rule ext)
     (simp add: loop_body_def assms attempts_def write_all_Cons write_all_Nil seq_skip_left
        seq_skip_right)

lemma for_each_loop_body:
  assumes "\<forall>sz \<in> set szs. isl (svg_content sz) = False"
  shows "for_each (loop_body en dir) szs = write_all en (plan dir szs)"
  using assms
proof (induction szs)
  case Nil
  show ?case by (simp add: plan_def for_each_Nil write_all_Nil)
next
  case (Cons sz szs)
  then obtain c where c: "svg_content sz = Inr c" by (cases "svg_content sz") auto
  have "for_each (loop_body en dir) szs = write_all en (plan dir szs)" using Cons by simp
  then show ?case
    by (simp add: for_each_Cons loop_body_attempts[OF c] plan_def c write_all_append)
qed

lemma wrote_Nil: "wrote [] w = w"
  by (simp add: wrote_def)

lemma wrote_Cons:
  "wrote ((p, s) # ws) w = wrote ws (w\<lparr>files := (files w)(p \<mapsto> s), write_log := write_log w @ [(p, s)]\<rparr>)"
  by (simp add: wrote_def map_add_upd_left)

lemma write_all_ok:
  assumes "\<forall>p \<in> fst ` set ws. file_fault en p = NoFault"
  shows "write_all en ws w = (None, wrote ws w)"
  using assms
proof (induction ws arbitrary: w)
  case Nil
  show ?case by (simp add: write_all_Nil skip_def wrote_Nil)
next
  case (Cons a ws)
  obtain p s where a: "a = (p, s)" by (cases a)
  have nf: "file_fault en p = NoFault" using Cons.prems a by simp
  have rest: "\<forall>p \<in> fst ` set ws. file_fault en p = NoFault" using Cons.prems by simp
  show ?case
    by (simp add: a write_all_Cons seq_def open_write_def nf Cons.IH[OF rest] wrote_Cons)
qed

lemma write_all_fault:
  assumes "\<forall>q \<in> fst ` set pre. file_fault en q = NoFault" "file_fault en p \<noteq> NoFault"
  shows "write_all en (pre @ (p, s) # post) w = (Some OSError, crashed en p (wrote pre w))"
proof -
  have "open_write en p s (wrote pre w) = (Some OSError, crashed en p (wrote pre w))"
    using assms(2) by (cases "file_fault en p") (simp_all add: open_write_def crashed_def)
  then show ?thesis
    by (simp add: write_all_append write_all_Cons seq_def write_all_ok[OF assms(1)])
qed

subsection \<open>The rendered text for the seven sizes\<close>

lemma format_template:
  "format_str svg_template
     [(''size'', sv), (''x1'', x1), (''y1'', y1), (''x2'', x2), (''y2'', y2), (''x3'', x3), (''y3'', y3)]
   = Inr (svg_schema (py_str sv) (py_str x1) (py_str y1) (py_str x2) (py_str y2) (py_str x3) (py_str y3))"
  by (simp add: format_str_def svg_template_def svg_schema_def)

lemma str_int_sizes:
  "str_int 16 = ''16''" "str_int 32 = ''32''" "str_int 64 = ''64''" "str_int 128 = ''128''"
  "str_int 256 = ''256''" "str_int 512 = ''512''" "str_int 1024 = ''1024''" "str_int 8 = ''8''"
  by (simp_all add: str_int_def str_nat.simps digit_char_def)

lemmas float_repr_sizes =
  float_repr_3_2 float_repr_4_0 float_repr_6_4 float_repr_8_0 float_repr_12_0 float_repr_12_8 float_repr_16_0 float_repr_24_0 float_repr_25_6 float_repr_32_0 float_repr_48_0 float_repr_51_2 float_repr_64_0 float_repr_96_0 float_repr_102_4 float_repr_128_0 float_repr_192_0 float_repr_204_8 float_repr_256_0 float_repr_384_0 float_repr_409_6 float_repr_512_0 float_repr_768_0 float_repr_819_2

lemma svg_content_sizes:
  "svg_content 16 = Inr (svg_schema ''16'' ''8.0'' ''12.0'' ''3.2'' ''4.0'' ''12.8'' ''4.0'')"
  "svg_content 32 = Inr (svg_schema ''32'' ''16.0'' ''24.0'' ''6.4'' ''8.0'' ''25.6'' ''8.0'')"
  "svg_content 64 = Inr (svg_schema ''64'' ''32.0'' ''48.0'' ''12.8'' ''16.0'' ''51.2'' ''16.0'')"
  "svg_content 128 = Inr (svg_schema ''128'' ''64.0'' ''96.0'' ''25.6'' ''32.0'' ''102.4'' ''32.0'')"
  "svg_content 256 = Inr (svg_schema ''256'' ''128.0'' ''192.0'' ''51.2'' ''64.0'' ''204.8'' ''64.0'')"
  "svg_content 512 = Inr (svg_schema ''512'' ''256.0'' ''384.0'' ''102.4'' ''128.0'' ''409.6'' ''128.0'')"
  "svg_content 1024 = Inr (svg_schema ''1024'' ''512.0'' ''768.0'' ''204.8'' ''256.0'' ''819.2'' ''256.0'')"
  by (simp_all add: svg_content_def center_x_sizes top_y_sizes bottom_y_sizes left_x_sizes right_x_sizes
      format_template str_int_sizes float_repr_sizes)

lemma attr_sizes:
  "attr ''width'' (svg_schema ''16'' a b c d e f) = Some ''16''"
  "attr ''height'' (svg_schema ''16'' a b c d e f) = Some ''16''"
  "attr ''width'' (svg_schema ''32'' a b c d e f) = Some ''32''"
  "attr ''height'' (svg_schema ''32'' a b c d e f) = Some ''32''"
  "attr ''width'' (svg_schema ''64'' a b c d e f) = Some ''64''"
  "attr ''height'' (svg_schema ''64'' a b c d e f) = Some ''64''"
  "attr ''width'' (svg_schema ''128'' a b c d e f) = Some ''128''"
  "attr ''height'' (svg_schema ''128'' a b c d e f) = Some ''128''"
  "attr ''width'' (svg_schema ''256'' a b c d e f) = Some ''256''"
  "attr ''height'' (svg_schema ''256'' a b c d e f) = Some ''256''"
  "attr ''width'' (svg_schema ''512'' a b c d e f) = Some ''512''"
  "attr ''height'' (svg_schema ''512'' a b c d e f) = Some ''512''"
  "attr ''width'' (svg_schema ''1024'' a b c d e f) = Some ''1024''"
  "attr ''height'' (svg_schema ''1024'' a b c d e f) = Some ''1024''"
  by (simp_all add: attr_def svg_schema_def)

lemma attr_points_32:
  "attr ''points'' (svg_schema ''32'' ''16.0'' ''24.0'' ''6.4'' ''8.0'' ''25.6'' ''8.0'')
     = Some ''16.0,24.0 6.4,8.0 25.6,8.0''"
  by (simp add: attr_def svg_schema_def)

lemma attr_points_1024:
  "attr ''points'' (svg_schema ''1024'' ''512.0'' ''768.0'' ''204.8'' ''256.0'' ''819.2'' ''256.0'')
     = Some ''512.0,768.0 204.8,256.0 819.2,256.0''"
  by (simp add: attr_def svg_schema_def)

subsection \<open>The run as a whole\<close>

lemma svg_content_svg_of: "sz \<in> set sizes \<Longrightarrow> svg_content sz = Inr (svg_of sz)"
  by (auto simp: sizes_def svg_of_def svg_content_sizes)

lemma svg_content_ok: "\<forall>sz \<in> set sizes. isl (svg_content sz) = False"
  by (simp add: svg_content_svg_of)

lemma icon_name_sizes:
  "icon_name 16 = ''icon_16x16.svg''" "icon_name 32 = ''icon_32x32.svg''"
  "icon_name 64 = ''icon_64x64.svg''" "icon_name 128 = ''icon_128x128.svg''"
  "icon_name 256 = ''icon_256x256.svg''" "icon_name 512 = ''icon_512x512.svg''"
  "icon_name_2x 32 = ''icon_16x16@2x.svg''" "icon_name_2x 64 = ''icon_32x32@2x.svg''"
  "icon_name_2x 128 = ''icon_64x64@2x.svg''" "icon_name_2x 256 = ''icon_128x128@2x.svg''"
  "icon_name_2x 512 = ''icon_256x256@2x.svg''"
  by (simp_all add: icon_name_def icon_name_2x_def str_int_sizes)

lemma plan_sizes:
  "plan dir sizes =
     [(dir @ [''icon_16x16.svg''], svg_of 16),
      (dir @ [''icon_32x32.svg''], svg_of 32), (dir @ [''icon_16x16@2x.svg''], svg_of 32),
      (dir @ [''icon_64x64.svg''], svg_of 64), (dir @ [''icon_32x32@2x.svg''], svg_of 64),
      (dir @ [''icon_128x128.svg''], svg_of 128), (dir @ [''icon_64x64@2x.svg''], svg_of 128),
      (dir @ [''icon_256x256.svg''], svg_of 256), (dir @ [''icon_128x128@2x.svg''], svg_of 256),
      (dir @ [''icon_512x512.svg''], svg_of 512), (dir @ [''icon_256x256@2x.svg''], svg_of 512)]"
  by (simp add: plan_def sizes_def svg_content_sizes svg_of_def attempts_def icon_name_sizes)

lemma plan_targets: "map fst (plan (iconset_dir file) sizes) = targets file"
  by (simp add: plan_sizes targets_def icon_files_def)

lemma length_plan: "length (plan dir sizes) = 11"
  by (simp add: plan_sizes)

lemma distinct_targets: "distinct (targets file)"
  by (simp add: targets_def icon_files_def)

lemma generate_icon_plan:
  "generate_icon en file =
     seq (mkdir_parents en (iconset_dir file))
    (seq (write_all en (plan (iconset_dir file) sizes))
    (seq (print_line (completion_messages file ! 0)) (print_line (completion_messages file ! 1))))"
  by (simp add: generate_icon_def for_each_loop_body[OF svg_content_ok] completion_messages_def)

lemma run_mkdir_fault:
  "mkdir_fault en \<Longrightarrow> generate_icon en file w = (Some OSError, w)"
  by (simp add: generate_icon_plan seq_def mkdir_parents_def)

lemma run_ok:
  assumes "no_faults en file"
  shows "generate_icon en file w =
           (None, printed file (wrote (plan (iconset_dir file) sizes) (made_dirs file w)))"
proof -
  have m: "\<not> mkdir_fault en" using assms by (simp add: no_faults_def)
  have "\<forall>p \<in> set (targets file). file_fault en p = NoFault"
    using assms by (simp add: no_faults_def list_all_iff)
  then have f: "\<forall>p \<in> fst ` set (plan (iconset_dir file) sizes). file_fault en p = NoFault"
    by (simp add: plan_targets[symmetric])
  show ?thesis
    by (simp add: generate_icon_plan seq_def mkdir_parents_def m write_all_ok[OF f] print_line_def
        printed_def made_dirs_def completion_messages_def)
qed

lemma run_write_fault:
  assumes "\<not> mkdir_fault en" "k < 11"
    and "\<forall>i < k. file_fault en (targets file ! i) = NoFault"
    and "file_fault en (targets file ! k) \<noteq> NoFault"
  shows "generate_icon en file w =
           (Some OSError,
            crashed en (targets file ! k) (wrote (take k (plan (iconset_dir file) sizes)) (made_dirs file w)))"
proof -
  let ?pl = "plan (iconset_dir file) sizes"
  have k: "k < length ?pl" using assms(2) by (simp add: length_plan)
  obtain p s where ps: "?pl ! k = (p, s)" by (cases "?pl ! k")
  have p: "p = targets file ! k"
    using ps k plan_targets[of "file"] by (metis fst_conv nth_map)
  have split: "?pl = take k ?pl @ (p, s) # drop (Suc k) ?pl"
    using k ps by (metis id_take_nth_drop)
  have pre: "\<forall>q \<in> fst ` set (take k ?pl). file_fault en q = NoFault"
  proof
    fix q assume "q \<in> fst ` set (take k ?pl)"
    then have "q \<in> set (take k (targets file))"
      by (simp add: plan_targets[symmetric] take_map)
    then obtain i where "i < k" "q = targets file ! i"
      using k by (auto simp: in_set_conv_nth plan_targets[symmetric])
    then show "file_fault en q = NoFault" using assms(3) by simp
  qed
  have "write_all en ?pl (made_dirs file w) =
          (Some OSError, crashed en p (wrote (take k ?pl) (made_dirs file w)))"
    using write_all_fault[OF pre, of p s "drop (Suc k) ?pl" "made_dirs file w"] assms(4) p split
    by simp
  then show ?thesis
    by (simp add: generate_icon_plan seq_def mkdir_parents_def assms(1) p made_dirs_def)
qed

subsection \<open>The files and the log after a run\<close>

lemma svg_of_sizes:
  "svg_of 16 = svg_schema ''16'' ''8.0'' ''12.0'' ''3.2'' ''4.0'' ''12.8'' ''4.0''"
  "svg_of 32 = svg_schema ''32'' ''16.0'' ''24.0'' ''6.4'' ''8.0'' ''25.6'' ''8.0''"
  "svg_of 64 = svg_schema ''64'' ''32.0'' ''48.0'' ''12.8'' ''16.0'' ''51.2'' ''16.0''"
  "svg_of 128 = svg_schema ''128'' ''64.0'' ''96.0'' ''25.6'' ''32.0'' ''102.4'' ''32.0''"
  "svg_of 256 = svg_schema ''256'' ''128.0'' ''192.0'' ''51.2'' ''64.0'' ''204.8'' ''64.0''"
  "svg_of 512 = svg_schema ''512'' ''256.0'' ''384.0'' ''102.4'' ''128.0'' ''409.6'' ''128.0''"
  "svg_of 1024 = svg_schema ''1024'' ''512.0'' ''768.0'' ''204.8'' ''256.0'' ''819.2'' ''256.0''"
  by (simp_all add: svg_of_def svg_content_sizes)

lemma map_of_rev_distinct: "distinct (map fst xs) \<Longrightarrow> map_of (rev xs) = map_of xs"
proof (induction xs)
  case Nil
  show ?case by simp
next
  case (Cons a xs)
  obtain k v where a: "a = (k, v)" by (cases a)
  have none: "map_of xs k = None" using Cons.prems a by (simp add: map_of_eq_None_iff)
  have "map_of (rev (a # xs)) = map_of [(k, v)] ++ map_of xs"
    using Cons a by (simp add: map_of_append del: map_of.simps)
  also have "\<dots> = map_of (a # xs)"
    using none by (intro ext) (auto simp: a map_add_def split: option.splits)
  finally show ?case .
qed

lemma distinct_plan: "distinct (map fst (plan (iconset_dir file) sizes))"
  by (simp add: plan_targets distinct_targets)

lemma world_after_ok:
  assumes "no_faults en file"
  shows "fst (generate_icon en file w) = None"
    and "files (snd (generate_icon en file w)) = files w ++ map_of (plan (iconset_dir file) sizes)"
    and "write_log (snd (generate_icon en file w)) = write_log w @ plan (iconset_dir file) sizes"
    and "writes_of w (snd (generate_icon en file w)) = plan (iconset_dir file) sizes"
    and "stdout (snd (generate_icon en file w)) = stdout w @ completion_messages file"
    and "dirs (snd (generate_icon en file w)) = dirs w \<union> set (prefixes (iconset_dir file))"
  by (simp_all add: run_ok[OF assms] printed_def wrote_def made_dirs_def writes_of_def
      map_of_rev_distinct[OF distinct_plan])

lemma write_all_log:
  "\<exists>k \<le> length ws. write_log (snd (write_all en ws w)) = write_log w @ take k ws"
proof (induction ws arbitrary: w)
  case Nil
  show ?case by (simp add: write_all_Nil skip_def)
next
  case (Cons a ws)
  obtain p s where a: "a = (p, s)" by (cases a)
  show ?case
  proof (cases "file_fault en p = NoFault")
    case True
    let ?w1 = "w\<lparr>files := (files w)(p \<mapsto> s), write_log := write_log w @ [(p, s)]\<rparr>"
    obtain k where k: "k \<le> length ws"
      "write_log (snd (write_all en ws ?w1)) = write_log ?w1 @ take k ws"
      using Cons.IH[of ?w1] by blast
    have "write_log (snd (write_all en (a # ws) w)) = write_log w @ take (Suc k) (a # ws)"
      using k(2) by (simp add: a write_all_Cons seq_def open_write_def True)
    then show ?thesis using k(1) by (intro exI[of _ "Suc k"]) simp
  next
    case False
    then have "write_log (snd (write_all en (a # ws) w)) = write_log w @ take 0 (a # ws)"
      by (cases "file_fault en p") (simp_all add: a write_all_Cons seq_def open_write_def)
    then show ?thesis by (intro exI[of _ 0]) simp
  qed
qed

lemma run_log:
  "\<exists>k \<le> 11. writes_of w (snd (generate_icon en file w)) = take k (plan (iconset_dir file) sizes)"
proof (cases "mkdir_fault en")
  case True
  then show ?thesis by (intro exI[of _ 0]) (simp add: run_mkdir_fault writes_of_def)
next
  case False
  let ?pl = "plan (iconset_dir file) sizes"
  obtain k where k: "k \<le> length ?pl"
    "write_log (snd (write_all en ?pl (made_dirs file w))) = write_log (made_dirs file w) @ take k ?pl"
    using write_all_log[of ?pl en "made_dirs file w"] by blast
  have "write_log (snd (generate_icon en file w)) = write_log (snd (write_all en ?pl (made_dirs file w)))"
    by (simp add: generate_icon_plan seq_def mkdir_parents_def False made_dirs_def print_line_def
        split: prod.splits option.splits)
  then have "writes_of w (snd (generate_icon en file w)) = take k ?pl"
    using k(2) by (simp add: writes_of_def made_dirs_def)
  then show ?thesis using k(1) by (intro exI[of _ k]) (simp add: length_plan)
qed

lemma icon_files_patterns:
  "icon_files =
     [nominal_file 16,
      nominal_file 32, retina_file 16,
      nominal_file 64, retina_file 32,
      nominal_file 128, retina_file 64,
      nominal_file 256, retina_file 128,
      nominal_file 512, retina_file 256]"
  by (simp add: icon_files_def nominal_file_def retina_file_def str_int_sizes)

lemma nominal_file_eq: "nominal_file S = nominal_file T \<longleftrightarrow> S = T"
  using nominal_file_inj by blast

lemma retina_file_eq: "retina_file S = retina_file T \<longleftrightarrow> S = T"
  using retina_file_inj by blast

lemma nominal_in_icon_files: "nominal_file S \<in> set icon_files \<longleftrightarrow> S \<in> set sizes \<and> S \<le> 512"
  by (auto simp: icon_files_patterns nominal_file_eq nominal_not_retina sizes_def)

lemma retina_in_icon_files:
  "retina_file N \<in> set icon_files \<longleftrightarrow> (\<exists>S \<in> set sizes. S div 2 = N \<and> 32 \<le> S \<and> S \<le> 512)"
  by (auto simp: icon_files_patterns retina_file_eq nominal_not_retina[symmetric] sizes_def)

lemma in_targets: "dir = iconset_dir file \<Longrightarrow> dir @ [n] \<in> set (targets file) \<longleftrightarrow> n \<in> set icon_files"
  by (auto simp: targets_def)

lemma no_faults_env_ok: "no_faults env_ok file"
  by (simp add: no_faults_def env_ok_def list_all_iff)

lemma pattern_names:
  "nominal_file 16 = ''icon_16x16.svg''" "nominal_file 32 = ''icon_32x32.svg''"
  "nominal_file 64 = ''icon_64x64.svg''" "nominal_file 128 = ''icon_128x128.svg''"
  "nominal_file 256 = ''icon_256x256.svg''" "nominal_file 512 = ''icon_512x512.svg''"
  "nominal_file 1024 = ''icon_1024x1024.svg''"
  "retina_file 16 = ''icon_16x16@2x.svg''" "retina_file 32 = ''icon_32x32@2x.svg''"
  "retina_file 64 = ''icon_64x64@2x.svg''" "retina_file 128 = ''icon_128x128@2x.svg''"
  "retina_file 256 = ''icon_256x256@2x.svg''" "retina_file 512 = ''icon_512x512@2x.svg''"
  by (simp_all add: nominal_file_def retina_file_def str_int_sizes)

lemma files_after_ok:
  assumes "no_faults en file"
  shows "files (snd (generate_icon en file w)) p =
           (case map_of (plan (iconset_dir file) sizes) p of None \<Rightarrow> files w p | Some c \<Rightarrow> Some c)"
  by (simp add: world_after_ok(2)[OF assms] map_add_def)

lemma svg_content_schema:
  assumes "svg_content S = Inr c"
  shows "\<exists>cx ty bt lx rx.
    center_x S = Inr cx \<and> top_y S = Inr ty \<and> bottom_y S = Inr bt \<and>
    left_x S = Inr lx \<and> right_x S = Inr rx \<and>
    c = svg_schema (str_int S) (float_repr cx) (float_repr bt) (float_repr lx) (float_repr ty)
          (float_repr rx) (float_repr ty)"
  using assms by (auto simp: svg_content_def format_template split: sum.splits)

lemma plan_entry:
  assumes "(p, c) \<in> set (plan dir szs)"
  shows "\<exists>S \<in> set szs. svg_content S = Inr c \<and>
           (S \<le> 512 \<and> p = dir @ [nominal_file S] \<or>
            32 \<le> S \<and> S \<le> 512 \<and> p = dir @ [retina_file (S div 2)])"
  using assms
  by (auto simp: plan_def attempts_def icon_name_def icon_name_2x_def nominal_file_def
      retina_file_def split: sum.splits if_splits)

lemma first_failure:
  assumes "\<not> list_all P xs"
  shows "\<exists>k < length xs. (\<forall>i < k. P (xs ! i)) \<and> \<not> P (xs ! k)"
  using assms
proof (induction xs)
  case Nil
  then show ?case by simp
next
  case (Cons x xs)
  show ?case
  proof (cases "P x")
    case True
    then have "\<not> list_all P xs" using Cons.prems by simp
    then obtain k where k: "k < length xs" "\<forall>i < k. P (xs ! i)" "\<not> P (xs ! k)"
      using Cons.IH by blast
    have "\<forall>i < Suc k. P ((x # xs) ! i)"
    proof (intro allI impI)
      fix i assume "i < Suc k"
      then show "P ((x # xs) ! i)" using True k(2) by (cases i) simp_all
    qed
    then show ?thesis using k(1,3) by (intro exI[of _ "Suc k"]) simp
  next
    case False
    then show ?thesis by (intro exI[of _ 0]) simp
  qed
qed

lemma length_targets: "length (targets file) = 11"
  by (simp add: targets_def icon_files_def)

lemma world_after_fault:
  assumes "\<not> mkdir_fault en" "k < 11"
    and "\<forall>i < k. file_fault en (targets file ! i) = NoFault"
    and "file_fault en (targets file ! k) \<noteq> NoFault"
  shows "fst (generate_icon en file w) = Some OSError"
    and "stdout (snd (generate_icon en file w)) = stdout w"
    and "map fst (writes_of w (snd (generate_icon en file w))) = take k (targets file)"
    and "\<forall>j. k < j \<and> j < 11 \<longrightarrow>
           files (snd (generate_icon en file w)) (targets file ! j) = files w (targets file ! j)"
proof -
  let ?pl = "plan (iconset_dir file) sizes"
  note run = run_write_fault[OF assms, of w]
  show "fst (generate_icon en file w) = Some OSError" by (simp add: run)
  show "stdout (snd (generate_icon en file w)) = stdout w"
    by (simp add: run crashed_def wrote_def made_dirs_def)
  show "map fst (writes_of w (snd (generate_icon en file w))) = take k (targets file)"
    by (simp add: run crashed_def wrote_def made_dirs_def writes_of_def plan_targets flip: take_map)
  show "\<forall>j. k < j \<and> j < 11 \<longrightarrow>
           files (snd (generate_icon en file w)) (targets file ! j) = files w (targets file ! j)"
  proof (intro allI impI)
    fix j assume j: "k < j \<and> j < 11"
    let ?q = "targets file ! j"
    have ne: "?q \<noteq> targets file ! k"
      using j assms(2) distinct_targets[of "file"] by (simp add: nth_eq_iff_index_eq length_targets)
    have "?q \<notin> set (take k (targets file))"
    proof
      assume "?q \<in> set (take k (targets file))"
      then obtain i where "i < k" "targets file ! i = ?q"
        using assms(2) by (auto simp: in_set_conv_nth length_targets)
      then show False
        using j distinct_targets[of "file"] by (simp add: nth_eq_iff_index_eq length_targets)
    qed
    moreover have "map fst (take k ?pl) = take k (targets file)"
      by (simp add: plan_targets flip: take_map)
    ultimately have "?q \<notin> set (map fst (rev (take k ?pl)))"
      by (simp add: rev_map[symmetric])
    then have "?q \<notin> fst ` set (rev (take k ?pl))"
      by simp
    then have "map_of (rev (take k ?pl)) ?q = None"
      by (simp add: map_of_eq_None_iff)
    then show "files (snd (generate_icon en file w)) ?q = files w ?q"
      using ne by (simp add: run crashed_def wrote_def made_dirs_def map_add_def)
  qed
qed

lemma nearest_fifths:
  "round_to_double False 16 5 = Finite False 7205759403792794 (- 51)"
  "round_to_double False 32 5 = Finite False 7205759403792794 (- 50)"
  "round_to_double False 64 5 = Finite False 7205759403792794 (- 49)"
  "round_to_double False 128 5 = Finite False 7205759403792794 (- 48)"
  "round_to_double False 256 5 = Finite False 7205759403792794 (- 47)"
  "round_to_double False 512 5 = Finite False 7205759403792794 (- 46)"
  "round_to_double False 1024 5 = Finite False 7205759403792794 (- 45)"
  "round_to_double False 2048 5 = Finite False 7205759403792794 (- 44)"
  "round_to_double False 4096 5 = Finite False 7205759403792794 (- 43)"
  by (simp_all add: float_eval)

subsection \<open>Rounding to a float: the error of one operation\<close>

text \<open>
  A quotient \<open>p / q\<close> of at least \<open>2\<^sup>-\<^sup>1\<^sup>0\<^sup>2\<^sup>2\<close> is rounded to a float with a significand of 53 bits:
  the result differs from the quotient by at most half a unit in the last place, hence by a
  relative error of at most \<open>2\<^sup>-\<^sup>5\<^sup>3\<close>, and it is finite below \<open>2\<^sup>1\<^sup>0\<^sup>2\<^sup>4 - 2\<^sup>9\<^sup>7\<^sup>0\<close>.
\<close>

lemma bit_length_bounds:
  "0 < n \<Longrightarrow> 2 ^ (bit_length n - 1) \<le> n \<and> n < 2 ^ bit_length n"
proof (induction n rule: bit_length.induct)
  case (1 n)
  show ?case
  proof (cases "n div 2 = 0")
    case True
    then have "n = 1" using 1(2) by arith
    then show ?thesis by (simp add: bit_length.simps)
  next
    case False
    let ?b = "bit_length (n div 2)"
    have ih: "2 ^ (?b - 1) \<le> n div 2 \<and> n div 2 < 2 ^ ?b"
      using 1(1) 1(2) False by simp
    have bpos: "0 < ?b" using False by (subst bit_length.simps) simp
    have bl: "bit_length n = ?b + 1" using 1(2) by (subst bit_length.simps) simp
    have "(2::nat) ^ ?b = 2 * 2 ^ (?b - 1)" using bpos by (cases ?b) simp_all
    also have "\<dots> \<le> 2 * (n div 2)" using ih by simp
    also have "\<dots> \<le> n" by arith
    finally have lo: "(2::nat) ^ ?b \<le> n" .
    have "n < 2 * (n div 2 + 1)" by arith
    also have "\<dots> \<le> 2 * 2 ^ ?b" using ih by simp
    finally have hi: "n < 2 ^ (?b + 1)" by simp
    show ?thesis using lo hi by (simp add: bl)
  qed
qed

lemma round_half_even_bound:
  assumes "0 < d"
  shows "\<bar>of_nat (round_half_even n d) - (of_nat n / of_nat d :: rat)\<bar> \<le> 1 / 2"
proof -
  define k where "k = n div d"
  define r where "r = n mod d"
  have n: "n = k * d + r" by (simp add: k_def r_def)
  have rd: "r < d" using assms by (simp add: r_def)
  have dpos: "(0::rat) < of_nat d" using assms by simp
  have q: "(of_nat n / of_nat d :: rat) = of_nat k + of_nat r / of_nat d"
    using assms by (simp add: n field_simps)
  have r0: "(0::rat) \<le> of_nat r / of_nat d" by simp
  have r1: "(of_nat r / of_nat d :: rat) < 1" using rd dpos by simp
  have half: "(of_nat r / of_nat d :: rat) < 1 / 2" if "2 * r < d"
  proof -
    have "(of_nat (2 * r) :: rat) < of_nat d" using that by (simp only: of_nat_less_iff)
    then show ?thesis using dpos by (simp add: field_simps)
  qed
  have half': "(1 / 2 :: rat) < of_nat r / of_nat d" if "d < 2 * r"
  proof -
    have "(of_nat d :: rat) < of_nat (2 * r)" using that by (simp only: of_nat_less_iff)
    then show ?thesis using dpos by (simp add: field_simps)
  qed
  have half'': "(of_nat r / of_nat d :: rat) = 1 / 2" if "d = 2 * r"
    using that dpos by (simp add: field_simps)
  consider "2 * r < d" | "d < 2 * r" | "d = 2 * r" by arith
  then show ?thesis
  proof cases
    case 1
    then have "round_half_even n d = k"
      by (simp add: round_half_even_def Let_def k_def r_def)
    then show ?thesis using half[OF 1] r0 by (simp add: q)
  next
    case 2
    then have "round_half_even n d = k + 1"
      by (simp add: round_half_even_def Let_def k_def r_def)
    then show ?thesis using half'[OF 2] r1 by (simp add: q)
  next
    case 3
    then have "round_half_even n d = k \<or> round_half_even n d = k + 1"
      by (simp add: round_half_even_def Let_def k_def r_def)
    then show ?thesis
    proof
      assume "round_half_even n d = k"
      then show ?thesis unfolding q half''[OF 3] by simp
    next
      assume "round_half_even n d = k + 1"
      then show ?thesis unfolding q half''[OF 3] by simp
    qed
  qed
qed

lemma ge_pow2_iff:
  assumes "0 < q"
  shows "ge_pow2 p q k \<longleftrightarrow> (2::rat) powi k \<le> of_nat p / of_nat q"
proof (cases "0 \<le> k")
  case True
  have "(2::rat) powi k = of_nat (2 ^ nat k)" using True by (simp add: power_int_def)
  then have "(2::rat) powi k \<le> of_nat p / of_nat q \<longleftrightarrow> (of_nat (q * 2 ^ nat k) :: rat) \<le> of_nat p"
    using assms by (simp add: field_simps)
  also have "\<dots> \<longleftrightarrow> q * 2 ^ nat k \<le> p" by (simp only: of_nat_le_iff)
  finally show ?thesis using True by (simp add: ge_pow2_def)
next
  case False
  define c where "c = (2::rat) ^ nat (- k)"
  have cpos: "0 < c" by (simp add: c_def)
  have qpos: "(0::rat) < of_nat q" using assms by simp
  have e: "(2::rat) powi k = 1 / c"
    using False by (simp add: power_int_def c_def field_simps)
  have "(1 / c \<le> of_nat p / of_nat q) \<longleftrightarrow> ((of_nat q :: rat) \<le> of_nat p * c)"
    using cpos qpos by (simp add: field_simps)
  then have "(2::rat) powi k \<le> of_nat p / of_nat q \<longleftrightarrow> (of_nat q :: rat) \<le> of_nat p * c"
    by (simp only: e)
  also have "of_nat p * c = (of_nat (p * 2 ^ nat (- k)) :: rat)" by (simp add: c_def)
  also have "(of_nat q :: rat) \<le> of_nat (p * 2 ^ nat (- k)) \<longleftrightarrow> q \<le> p * 2 ^ nat (- k)"
    by (simp only: of_nat_le_iff)
  finally show ?thesis using False by (simp add: ge_pow2_def)
qed

lemma ilog2_bounds:
  assumes "0 < p" "0 < q"
  shows "(2::rat) powi (ilog2 p q) \<le> of_nat p / of_nat q"
    and "(of_nat p / of_nat q :: rat) < 2 powi (ilog2 p q + 1)"
proof -
  define a where "a = bit_length p"
  define b where "b = bit_length q"
  define k where "k = int a - int b"
  have pb: "2 ^ (a - 1) \<le> p" "p < 2 ^ a"
    using bit_length_bounds[OF assms(1)] by (simp_all add: a_def)
  have qb: "2 ^ (b - 1) \<le> q" "q < 2 ^ b"
    using bit_length_bounds[OF assms(2)] by (simp_all add: b_def)
  have apos: "0 < a" using assms(1) unfolding a_def by (subst bit_length.simps) simp
  have bpos: "0 < b" using assms(2) unfolding b_def by (subst bit_length.simps) simp
  have qpos: "(0::rat) < of_nat q" using assms(2) by simp
  have P1: "(2::rat) powi (int a - 1) \<le> of_nat p"
  proof -
    have "(2::rat) powi (int a - 1) = 2 ^ (a - 1)"
      using apos by (simp add: power_int_def nat_diff_distrib')
    also have "\<dots> = of_nat (2 ^ (a - 1))" by simp
    also have "\<dots> \<le> of_nat p" using pb(1) by (simp only: of_nat_le_iff)
    finally show ?thesis .
  qed
  have P2: "(of_nat p :: rat) < 2 powi (int a)"
  proof -
    have "(of_nat p :: rat) < of_nat (2 ^ a)" using pb(2) by (simp only: of_nat_less_iff)
    then show ?thesis by simp
  qed
  have Q1: "(2::rat) powi (int b - 1) \<le> of_nat q"
  proof -
    have "(2::rat) powi (int b - 1) = 2 ^ (b - 1)"
      using bpos by (simp add: power_int_def nat_diff_distrib')
    also have "\<dots> = of_nat (2 ^ (b - 1))" by simp
    also have "\<dots> \<le> of_nat q" using qb(1) by (simp only: of_nat_le_iff)
    finally show ?thesis .
  qed
  have Q2: "(of_nat q :: rat) < 2 powi (int b)"
  proof -
    have "(of_nat q :: rat) < of_nat (2 ^ b)" using qb(2) by (simp only: of_nat_less_iff)
    then show ?thesis by simp
  qed
  have lower: "(2::rat) powi (k - 1) \<le> of_nat p / of_nat q"
  proof -
    have km: "k - 1 = (int a - 1) - int b" by (simp add: k_def)
    have "(2::rat) powi (k - 1) = 2 powi ((int a - 1) - int b)" by (simp only: km)
    also have "\<dots> = 2 powi (int a - 1) / 2 powi (int b)"
      by (rule power_int_diff) simp
    also have "\<dots> \<le> of_nat p / 2 powi (int b)"
      using P1 by (simp add: divide_right_mono)
    also have "\<dots> \<le> of_nat p / of_nat q"
      using Q2 qpos by (intro divide_left_mono) (simp_all add: mult_pos_pos)
    finally show ?thesis .
  qed
  have upper: "(of_nat p / of_nat q :: rat) < 2 powi (k + 1)"
  proof -
    have q1pos: "(0::rat) < 2 powi (int b - 1)" by simp
    have "(of_nat p / of_nat q :: rat) < 2 powi (int a) / of_nat q"
      using P2 qpos by (simp add: divide_strict_right_mono)
    also have "\<dots> \<le> 2 powi (int a) / 2 powi (int b - 1)"
      using Q1 q1pos qpos by (intro divide_left_mono) (simp_all add: mult_pos_pos)
    also have "\<dots> = 2 powi (int a - (int b - 1))"
      by (rule power_int_diff[symmetric]) simp
    also have "int a - (int b - 1) = k + 1" by (simp add: k_def)
    finally show ?thesis .
  qed
  have il: "ilog2 p q = (if ge_pow2 p q k then k else k - 1)"
    by (simp add: ilog2_def Let_def k_def a_def b_def)
  show "(2::rat) powi (ilog2 p q) \<le> of_nat p / of_nat q"
    using lower by (simp add: il ge_pow2_iff[OF assms(2)])
  show "(of_nat p / of_nat q :: rat) < 2 powi (ilog2 p q + 1)"
    using upper by (auto simp: il ge_pow2_iff[OF assms(2)] not_le)
qed

lemma scaled_quotient:
  assumes "0 < q"
  shows "\<exists>N D. 0 < D \<and> (of_nat N / of_nat D :: rat) = (of_nat p / of_nat q) / 2 powi e \<and>
           (if 0 \<le> e then round_half_even p (q * 2 ^ nat e)
            else round_half_even (p * 2 ^ nat (- e)) q) = round_half_even N D"
proof (cases "0 \<le> e")
  case True
  have "(2::rat) powi e = 2 ^ nat e" using True by (simp add: power_int_def)
  then have "(of_nat p / of_nat (q * 2 ^ nat e) :: rat) = (of_nat p / of_nat q) / 2 powi e"
    by simp
  then show ?thesis using True assms
    by (intro exI[of _ p] exI[of _ "q * 2 ^ nat e"]) simp
next
  case False
  have "(2::rat) powi e = 1 / 2 ^ nat (- e)"
    using False by (simp add: power_int_def field_simps)
  then have "(of_nat (p * 2 ^ nat (- e)) / of_nat q :: rat) = (of_nat p / of_nat q) / 2 powi e"
    by simp
  then show ?thesis using False assms
    by (intro exI[of _ "p * 2 ^ nat (- e)"] exI[of _ q]) simp
qed

lemma round_to_double_normal:
  fixes r :: rat
  assumes "0 < p" "0 < q" and r: "r = of_nat p / of_nat q" and lo: "2 powi (- 1022) \<le> r"
  shows "\<exists>m0. 2 ^ 52 \<le> m0 \<and> m0 \<le> 2 ^ 53 \<and>
           \<bar>of_nat m0 * 2 powi (ilog2 p q - 52) - r\<bar> \<le> r / 2 ^ 53 \<and>
           \<bar>of_nat m0 * 2 powi (ilog2 p q - 52) - r\<bar> \<le> 2 powi (ilog2 p q - 52) / 2 \<and>
           2 powi (ilog2 p q) \<le> r \<and> r < 2 powi (ilog2 p q + 1) \<and>
           round_to_double s p q =
             (if m0 = 2 ^ 53
              then (if 971 < ilog2 p q - 52 + 1 then Infinity s else Finite s (2 ^ 52) (ilog2 p q - 52 + 1))
              else (if 971 < ilog2 p q - 52 then Infinity s else Finite s m0 (ilog2 p q - 52)))"
proof -
  define k where "k = ilog2 p q"
  define e where "e = k - 52"
  have kb: "2 powi k \<le> r" "r < 2 powi (k + 1)"
    using ilog2_bounds[OF assms(1,2)] by (simp_all add: k_def r)
  have kge: "- 1022 \<le> k"
  proof (rule ccontr)
    assume "\<not> - 1022 \<le> k"
    then have "k + 1 \<le> - 1022" by simp
    then have "(2::rat) powi (k + 1) \<le> 2 powi (- 1022)"
      by (intro power_int_increasing) simp_all
    then show False using kb(2) lo by simp
  qed
  have emax: "max (k - 52) (- 1074) = e" using kge by (simp add: e_def)
  obtain N D where ND: "0 < D" "(of_nat N / of_nat D :: rat) = r / 2 powi e"
    "(if 0 \<le> e then round_half_even p (q * 2 ^ nat e)
      else round_half_even (p * 2 ^ nat (- e)) q) = round_half_even N D"
    using scaled_quotient[OF assms(2), of p e] unfolding r by blast
  define m0 where "m0 = round_half_even N D"
  define x where "x = r / 2 powi e"
  have epos: "(0::rat) < 2 powi e" by simp
  have m0x: "\<bar>of_nat m0 - x\<bar> \<le> 1 / 2"
    using round_half_even_bound[OF ND(1), of N] by (simp add: m0_def x_def ND(2))
  have pk: "(2::rat) powi k = 2 ^ 52 * 2 powi e"
  proof -
    have "k = 52 + e" by (simp add: e_def)
    then have "(2::rat) powi k = 2 powi (52 + e)" by (simp only:)
    also have "\<dots> = 2 powi 52 * 2 powi e" by (rule power_int_add) simp
    finally show ?thesis by simp
  qed
  have pk1: "(2::rat) powi (k + 1) = 2 ^ 53 * 2 powi e"
  proof -
    have "k + 1 = 53 + e" by (simp add: e_def)
    then have "(2::rat) powi (k + 1) = 2 powi (53 + e)" by (simp only:)
    also have "\<dots> = 2 powi 53 * 2 powi e" by (rule power_int_add) simp
    finally show ?thesis by simp
  qed
  have xlo: "2 ^ 52 \<le> x"
    using kb(1) epos unfolding pk x_def by (simp add: field_simps)
  have xhi: "x < 2 ^ 53"
    using kb(2) epos unfolding pk1 x_def by (simp add: field_simps)
  have "(2 ^ 52 :: rat) - 1 / 2 \<le> of_nat m0" using m0x xlo by linarith
  then have "(of_nat (2 ^ 52 - 1) :: rat) < of_nat m0" by simp
  then have "2 ^ 52 - 1 < m0" by (simp only: of_nat_less_iff)
  then have mlo: "2 ^ 52 \<le> m0" by simp
  have "(of_nat m0 :: rat) < 2 ^ 53 + 1 / 2" using m0x xhi by linarith
  then have "(of_nat m0 :: rat) < of_nat (2 ^ 53 + 1)" by simp
  then have "m0 < 2 ^ 53 + 1" by (simp only: of_nat_less_iff)
  then have mhi: "m0 \<le> 2 ^ 53" by simp
  have rx: "r = x * 2 powi e" using epos by (simp add: x_def)
  have "of_nat m0 * 2 powi e - r = (of_nat m0 - x) * 2 powi e"
    unfolding rx by (simp add: left_diff_distrib)
  then have "\<bar>of_nat m0 * 2 powi e - r\<bar> = \<bar>of_nat m0 - x\<bar> * \<bar>2 powi e\<bar>"
    by (simp only: abs_mult)
  also have "\<dots> = \<bar>of_nat m0 - x\<bar> * 2 powi e"
    using epos by simp
  finally have "\<bar>of_nat m0 * 2 powi e - r\<bar> = \<bar>of_nat m0 - x\<bar> * 2 powi e" .
  also have "\<dots> \<le> 1 / 2 * 2 powi e"
    using m0x epos by (intro mult_right_mono) simp_all
  finally have ulp: "\<bar>of_nat m0 * 2 powi e - r\<bar> \<le> 2 powi e / 2" by simp
  have "2 powi e / 2 \<le> r / 2 ^ 53"
    using kb(1) unfolding pk by (simp add: field_simps)
  then have err: "\<bar>of_nat m0 * 2 powi e - r\<bar> \<le> r / 2 ^ 53" using ulp by linarith
  have pne: "p \<noteq> 0" using assms(1) by simp
  have "round_to_double s p q =
             (if m0 = 2 ^ 53
              then (if 971 < e + 1 then Infinity s else Finite s (2 ^ 52) (e + 1))
              else (if 971 < e then Infinity s else Finite s m0 e))"
    unfolding round_to_double_def using pne
    by (simp add: Let_def k_def[symmetric] emax ND(3) m0_def[symmetric])
  then show ?thesis
    using mlo mhi err ulp kb by (intro exI[of _ m0]) (simp add: e_def k_def)
qed

lemma float_val_powi: "float_val (Finite False m e) = of_nat m * 2 powi e"
  by (simp add: power_int_def field_simps)

lemma round_to_double_finite:
  fixes r :: rat
  assumes "0 < p" "0 < q" and r: "r = of_nat p / of_nat q" and lo: "2 powi (- 1022) \<le> r"
    and fin: "round_to_double False p q = Finite t m e"
  shows "t = False" and "\<bar>float_val (Finite False m e) - r\<bar> \<le> r / 2 ^ 53"
    and "float_val (Finite False m e) \<le> (2 ^ 53 - 1) * 2 powi 971"
proof -
  define e0 where "e0 = ilog2 p q - 52"
  obtain m0 where m0: "2 ^ 52 \<le> m0" "m0 \<le> 2 ^ 53"
    "\<bar>of_nat m0 * 2 powi e0 - r\<bar> \<le> r / 2 ^ 53"
    and eq: "round_to_double False p q =
             (if m0 = 2 ^ 53
              then (if 971 < e0 + 1 then Infinity False else Finite False (2 ^ 52) (e0 + 1))
              else (if 971 < e0 then Infinity False else Finite False m0 e0))"
    using round_to_double_normal[OF assms(1,2) r lo, of False] unfolding e0_def by blast
  have two: "(2::rat) powi (e0 + 1) = 2 * 2 powi e0"
  proof -
    have "(2::rat) powi (e0 + 1) = 2 powi e0 * 2 powi 1" by (rule power_int_add) simp
    then show ?thesis by simp
  qed
  consider (up) "m0 = 2 ^ 53" "\<not> 971 < e0 + 1" "t = False" "m = 2 ^ 52" "e = e0 + 1"
    | (plain) "m0 \<noteq> 2 ^ 53" "\<not> 971 < e0" "t = False" "m = m0" "e = e0"
    using fin eq by (auto split: if_splits)
  then have both: "t = False \<and> of_nat m * 2 powi e = (of_nat m0 :: rat) * 2 powi e0 \<and>
      (of_nat m :: rat) * 2 powi e \<le> (2 ^ 53 - 1) * 2 powi 971"
  proof cases
    case up
    have "(2::rat) powi e \<le> 2 powi 971" using up(2,5) by (intro power_int_increasing) simp_all
    then have "(2 ^ 52 :: rat) * 2 powi e \<le> 2 ^ 52 * 2 powi 971" by simp
    also have "\<dots> \<le> (2 ^ 53 - 1) * 2 powi 971" by simp
    finally show ?thesis using up by (simp add: two)
  next
    case plain
    have "m0 < 2 ^ 53" using m0(2) plain(1) by simp
    then have "m0 \<le> 2 ^ 53 - 1" by simp
    then have "(of_nat m0 :: rat) \<le> of_nat (2 ^ 53 - 1)" by (simp only: of_nat_le_iff)
    then have a: "(of_nat m0 :: rat) \<le> 2 ^ 53 - 1" by simp
    have b: "(2::rat) powi e0 \<le> 2 powi 971" using plain(2) by (intro power_int_increasing) simp_all
    have "(of_nat m0 :: rat) * 2 powi e0 \<le> (2 ^ 53 - 1) * 2 powi 971"
      using a b by (intro mult_mono) simp_all
    then show ?thesis using plain by simp
  qed
  show "t = False" using both by simp
  have v: "float_val (Finite False m e) = of_nat m0 * 2 powi e0"
    using both by (simp only: float_val_powi)
  show "\<bar>float_val (Finite False m e) - r\<bar> \<le> r / 2 ^ 53"
    using m0(3) by (simp only: v)
  have "(of_nat m :: rat) * 2 powi e \<le> (2 ^ 53 - 1) * 2 powi 971"
    using both by blast
  then show "float_val (Finite False m e) \<le> (2 ^ 53 - 1) * 2 powi 971"
    by (simp only: float_val_powi)
qed

lemma round_to_double_not_NaN: "round_to_double s p q \<noteq> NaN"
  by (simp add: round_to_double_def Let_def)

lemma round_to_double_sign: "round_to_double s p q = Infinity t \<Longrightarrow> t = s"
  by (simp add: round_to_double_def Let_def split: if_splits)

lemma round_to_double_in_range:
  fixes r :: rat
  assumes "0 < p" "0 < q" and r: "r = of_nat p / of_nat q" and lo: "2 powi (- 1022) \<le> r"
    and hi: "r < 2 powi 1024 - 2 powi 970"
  shows "\<exists>m e. round_to_double False p q = Finite False m e"
proof -
  define k where "k = ilog2 p q"
  define e0 where "e0 = k - 52"
  obtain m0 where m0: "2 ^ 52 \<le> m0" "m0 \<le> 2 ^ 53"
    "\<bar>of_nat m0 * 2 powi e0 - r\<bar> \<le> 2 powi e0 / 2" "2 powi k \<le> r"
    and eq: "round_to_double False p q =
             (if m0 = 2 ^ 53
              then (if 971 < e0 + 1 then Infinity False else Finite False (2 ^ 52) (e0 + 1))
              else (if 971 < e0 then Infinity False else Finite False m0 e0))"
    using round_to_double_normal[OF assms(1,2) r lo, of False] unfolding e0_def k_def by blast
  have "(2::rat) powi k < 2 powi 1024" using m0(4) hi by simp
  then have "k < 1024" by (rule power_int_le_imp_less_exp[rotated]) simp_all
  then have e971: "e0 \<le> 971" by (simp add: e0_def)
  have "e0 + 1 \<le> 971" if up: "m0 = 2 ^ 53"
  proof (rule ccontr)
    assume "\<not> e0 + 1 \<le> 971"
    then have e: "e0 = 971" using e971 by simp
    have "(2::rat) ^ 53 * 2 powi 971 = 2 powi (53 + 971)" by (simp add: power_int_add)
    then have a: "(2::rat) ^ 53 * 2 powi 971 = 2 powi 1024" by simp
    have b: "(2::rat) powi 971 / 2 = 2 powi 970" by simp
    have "\<bar>2 powi 1024 - r\<bar> \<le> 2 powi 970"
      using m0(3) unfolding e up by (simp only: of_nat_power of_nat_numeral a b)
    then show False using hi by linarith
  qed
  then show ?thesis using eq e971 by auto
qed


lemma round_to_double_overflow:
  fixes r :: rat
  assumes "0 < p" "0 < q" and r: "r = of_nat p / of_nat q" and hi: "2 powi 1024 \<le> r"
  shows "round_to_double s p q = Infinity s"
proof -
  define k where "k = ilog2 p q"
  have "(2::rat) powi (- 1022) \<le> 2 powi 1024" by (intro power_int_increasing) simp_all
  then have lo: "2 powi (- 1022) \<le> r" using hi by linarith
  obtain m0 where "r < 2 powi (k + 1)"
    and eq: "round_to_double s p q =
             (if m0 = 2 ^ 53
              then (if 971 < k - 52 + 1 then Infinity s else Finite s (2 ^ 52) (k - 52 + 1))
              else (if 971 < k - 52 then Infinity s else Finite s m0 (k - 52)))"
    using round_to_double_normal[OF assms(1,2) r lo, of s] unfolding k_def by blast
  then have "(2::rat) powi 1024 < 2 powi (k + 1)" using hi by linarith
  have "1024 < k + 1"
  proof (rule ccontr)
    assume "\<not> 1024 < k + 1"
    then have "(2::rat) powi (k + 1) \<le> 2 powi 1024" by (intro power_int_increasing) simp_all
    then show False using \<open>(2::rat) powi 1024 < 2 powi (k + 1)\<close> by linarith
  qed
  then show ?thesis using eq by simp
qed

subsection \<open>The coordinates of an arbitrary positive size\<close>

text \<open>
  The conversion \<^verbatim>\<open>float(size)\<close> and the product with a literal between \<open>1/8\<close> and 1 are
  each rounded once; from the two error bounds the order of the five coordinates follows
  by linear arithmetic. From \<open>2\<^sup>1\<^sup>0\<^sup>2\<^sup>4\<close> on the conversion raises \<^verbatim>\<open>OverflowError\<close>.
\<close>

lemma float_of_int_pos:
  assumes S: "0 < S" and F: "float_of_int S = Inr F"
  shows "\<exists>m e. F = Finite False m e \<and> 0 < m \<and>
           \<bar>float_val F - of_int S\<bar> \<le> of_int S / 2 ^ 53 \<and>
           float_val F \<le> (2 ^ 53 - 1) * 2 powi 971"
proof -
  have rd: "round_to_double False (nat S) 1 = F"
    using S F by (auto simp: float_of_int_def split: pyfloat.splits)
  have r: "(of_int S :: rat) = of_nat (nat S) / of_nat 1" using S by simp
  have "(2::rat) powi (- 1022) \<le> 2 powi 0" by (intro power_int_increasing) simp_all
  moreover have "(1::rat) \<le> of_int S" using S by simp
  ultimately have lo: "(2::rat) powi (- 1022) \<le> of_int S" by simp
  have p: "0 < nat S" using S by simp
  show ?thesis
  proof (cases F)
    case (Finite t m e)
    note fin = round_to_double_finite[OF p zero_less_one r lo rd[unfolded Finite]]
    have t: "F = Finite False m e" using fin(1) Finite by simp
    have err: "\<bar>float_val F - of_int S\<bar> \<le> of_int S / 2 ^ 53" using fin(2) t by simp
    have "0 < float_val F" 
    proof -
      have "(of_int S :: rat) / 2 ^ 53 < of_int S" using S by simp
      then show ?thesis using err by linarith
    qed
    then have "0 < m" unfolding t float_val_powi by (cases m) simp_all
    then show ?thesis using t err fin(3) by blast
  next
    case (Infinity t)
    then show ?thesis using S F by (simp add: float_of_int_def split: pyfloat.splits)
  next
    case NaN
    then show ?thesis using rd round_to_double_not_NaN by metis
  qed
qed

lemma float_of_int_returns:
  assumes S: "0 < S" and hi: "S < 2 ^ 1024 - 2 ^ 970"
  shows "\<exists>F. float_of_int S = Inr F"
proof -
  have r: "(of_int S :: rat) = of_nat (nat S) / of_nat 1" using S by simp
  have "(2::rat) powi (- 1022) \<le> 2 powi 0" by (intro power_int_increasing) simp_all
  moreover have "(1::rat) \<le> of_int S" using S by simp
  ultimately have lo: "(2::rat) powi (- 1022) \<le> of_int S" by simp
  have "(of_int S :: rat) < of_int (2 ^ 1024 - 2 ^ 970)" using hi by (simp only: of_int_less_iff)
  then have hi': "(of_int S :: rat) < 2 powi 1024 - 2 powi 970" by simp
  have p: "0 < nat S" using S by simp
  obtain m e where "round_to_double False (nat S) 1 = Finite False m e"
    using round_to_double_in_range[OF p zero_less_one r lo hi'] by blast
  then show ?thesis using S by (simp add: float_of_int_def)
qed

lemma float_of_int_overflow:
  assumes "2 ^ 1024 \<le> S"
  shows "float_of_int S = Inl OverflowError"
proof -
  have S: "0 < S" using assms by (rule less_le_trans[rotated]) simp
  have r: "(of_int S :: rat) = of_nat (nat S) / of_nat 1" using S by simp
  have "(of_int (2 ^ 1024) :: rat) \<le> of_int S" using assms by (simp only: of_int_le_iff)
  then have hi: "(2::rat) powi 1024 \<le> of_int S" by simp
  have p: "0 < nat S" using S by simp
  show ?thesis
    using round_to_double_overflow[OF p zero_less_one r hi, of False] S
    by (simp add: float_of_int_def)
qed

lemma float_mul_pos:
  assumes "0 < m" "0 < n"
  shows "\<exists>P Q. 0 < P \<and> 0 < Q \<and>
           (of_nat P / of_nat Q :: rat) = float_val (Finite False m e) * float_val (Finite False n f) \<and>
           float_mul (Finite False m e) (Finite False n f) = round_to_double False P Q"
proof -
  have prod: "float_val (Finite False m e) * float_val (Finite False n f)
      = of_nat m * of_nat n * (2::rat) powi (e + f)"
  proof -
    have "(2::rat) powi (e + f) = 2 powi e * 2 powi f" by (rule power_int_add) simp
    then show ?thesis by (simp only: float_val_powi) simp
  qed
  show ?thesis
  proof (cases "0 \<le> e + f")
    case True
    have "(2::rat) powi (e + f) = 2 ^ nat (e + f)" using True by (simp add: power_int_def)
    then have "(of_nat (m * n * 2 ^ nat (e + f)) / of_nat 1 :: rat)
        = float_val (Finite False m e) * float_val (Finite False n f)"
      unfolding prod by simp
    moreover have "float_mul (Finite False m e) (Finite False n f)
        = round_to_double False (m * n * 2 ^ nat (e + f)) 1"
      using True by simp
    moreover have "0 < m * n * 2 ^ nat (e + f)" using assms by simp
    ultimately show ?thesis using zero_less_one by blast
  next
    case False
    have "(2::rat) powi (e + f) = 1 / 2 ^ nat (- (e + f))"
      using False by (simp add: power_int_def field_simps)
    then have "(of_nat (m * n) / of_nat (2 ^ nat (- (e + f))) :: rat)
        = float_val (Finite False m e) * float_val (Finite False n f)"
      unfolding prod by simp
    moreover have "float_mul (Finite False m e) (Finite False n f)
        = round_to_double False (m * n) (2 ^ nat (- (e + f)))"
      using False by simp
    moreover have "0 < m * n" using assms by simp
    moreover have "(0::nat) < 2 ^ nat (- (e + f))" by simp
    ultimately show ?thesis by blast
  qed
qed

lemma float_mul_bound:
  fixes v :: rat
  assumes "0 < m" "0 < n"
    and v: "v = float_val (Finite False m e) * float_val (Finite False n f)"
    and lo: "2 powi (- 1022) \<le> v" and hi: "v < 2 powi 1024 - 2 powi 970"
  shows "\<exists>m' e'. float_mul (Finite False m e) (Finite False n f) = Finite False m' e' \<and>
           \<bar>float_val (Finite False m' e') - v\<bar> \<le> v / 2 ^ 53"
proof -
  obtain P Q where PQ: "0 < P" "0 < Q" "(of_nat P / of_nat Q :: rat) = v"
    and eq: "float_mul (Finite False m e) (Finite False n f) = round_to_double False P Q"
    using float_mul_pos[OF assms(1,2), of e f] v by metis
  obtain m' e' where fin: "round_to_double False P Q = Finite False m' e'"
    using round_to_double_in_range[OF PQ(1,2) PQ(3)[symmetric] lo hi] by blast
  have "\<bar>float_val (Finite False m' e') - v\<bar> \<le> v / 2 ^ 53"
    by (rule round_to_double_finite(2)[OF PQ(1,2) PQ(3)[symmetric] lo fin])
  then show ?thesis using eq fin by simp
qed

lemma literals:
  "float_literal 25 2 = Finite False 4503599627370496 (- 54)"
  "float_literal 75 2 = Finite False 6755399441055744 (- 53)"
  "float_literal 2 1 = Finite False 7205759403792794 (- 55)"
  "float_literal 8 1 = Finite False 7205759403792794 (- 53)"
  by (simp_all add: float_eval)

lemma literal_values:
  "float_val (Finite False 4503599627370496 (- 54)) = 1 / 4"
  "float_val (Finite False 6755399441055744 (- 53)) = 3 / 4"
  "float_val (Finite False 7205759403792794 (- 55)) = 3602879701896397 / 18014398509481984"
  "float_val (Finite False 7205759403792794 (- 53)) = 3602879701896397 / 4503599627370496"
  by simp_all

lemma scaled_bound:
  fixes c :: rat
  assumes S: "0 < S" and F: "float_of_int S = Inr F" and n: "0 < n"
    and c: "float_val (Finite False n f) = c" "1 / 8 \<le> c" "c \<le> 1"
  shows "\<exists>m e. float_mul F (Finite False n f) = Finite False m e \<and>
           \<bar>float_val (Finite False m e) - float_val F * c\<bar> \<le> float_val F * c / 2 ^ 53"
proof -
  obtain mF eF where Ff: "F = Finite False mF eF" and mF: "0 < mF"
    and err: "\<bar>float_val F - of_int S\<bar> \<le> of_int S / 2 ^ 53"
    and mx: "float_val F \<le> (2 ^ 53 - 1) * 2 powi 971"
    using float_of_int_pos[OF S F] by blast
  define vF where "vF = float_val F"
  define s :: rat where "s = of_int S"
  have s1: "1 \<le> s" using S by (simp add: s_def)
  have "\<bar>vF - s\<bar> \<le> s / 9007199254740992" using err unfolding vF_def s_def by simp
  then have half: "1 / 2 \<le> vF" using s1 by linarith
  have a: "vF * (1 / 8) \<le> vF * c" using c(2) half by (intro mult_left_mono) simp_all
  have b: "1 / 16 \<le> vF * (1 / 8)" using half by simp
  have v16: "1 / 16 \<le> vF * c" using b a by (rule order_trans)
  have "(2::rat) powi (- 1022) \<le> 2 powi (- 4)" by (intro power_int_increasing) simp_all
  then have lo: "2 powi (- 1022) \<le> vF * c" using v16 by simp
  have "vF * c \<le> vF * 1" using c(3) half by (intro mult_left_mono) simp_all
  then have "vF * c \<le> (2 ^ 53 - 1) * 2 powi 971" using mx unfolding vF_def by simp
  moreover have "((2::rat) ^ 53 - 1) * 2 powi 971 < 2 powi 1024 - 2 powi 970" by simp
  ultimately have hi: "vF * c < 2 powi 1024 - 2 powi 970" by linarith
  have v: "vF * c = float_val (Finite False mF eF) * float_val (Finite False n f)"
    unfolding vF_def Ff c(1) ..
  show ?thesis
    using float_mul_bound[OF mF n v lo hi] unfolding Ff vF_def by blast
qed

lemma center_bound:
  assumes S: "0 < S" and C: "center_x S = Inr cx"
  shows "\<exists>m e. cx = Finite False m e \<and>
           \<bar>float_val (Finite False m e) - of_int S / 2\<bar> \<le> of_int S / 2 / 2 ^ 53"
proof -
  have rd: "round_to_double False (nat S) 2 = cx"
    using S C by (auto simp: center_x_def int_truediv_def split: pyfloat.splits)
  have r: "(of_int S / 2 :: rat) = of_nat (nat S) / of_nat 2" using S by simp
  have "(2::rat) powi (- 1022) \<le> 2 powi (- 1)" by (intro power_int_increasing) simp_all
  moreover have "(1::rat) \<le> of_int S" using S by simp
  ultimately have lo: "(2::rat) powi (- 1022) \<le> of_int S / 2" by simp
  have p: "0 < nat S" using S by simp
  have q: "(0::nat) < 2" by simp
  show ?thesis
  proof (cases cx)
    case (Finite t m e)
    note fin = round_to_double_finite[OF p q r lo rd[unfolded Finite]]
    show ?thesis using fin(1,2) Finite by simp
  next
    case (Infinity t)
    then show ?thesis using S C
      by (simp add: center_x_def int_truediv_def split: pyfloat.splits)
  next
    case NaN
    then show ?thesis using rd round_to_double_not_NaN by metis
  qed
qed

lemma triangle_order:
  assumes S: "0 < S"
    and C: "center_x S = Inr cx" and T: "top_y S = Inr ty" and B: "bottom_y S = Inr bt"
    and L: "left_x S = Inr lx" and R: "right_x S = Inr rx"
  shows "float_lt ty bt \<and> float_lt lx cx \<and> float_lt cx rx"
proof -
  obtain F where F: "float_of_int S = Inr F"
    using T by (auto simp: top_y_def int_mul_float_def split: sum.splits)
  have ty: "ty = float_mul F (Finite False 4503599627370496 (- 54))"
    using T F unfolding top_y_def int_mul_float_def literals by simp
  have bt: "bt = float_mul F (Finite False 6755399441055744 (- 53))"
    using B F unfolding bottom_y_def int_mul_float_def literals by simp
  have lx: "lx = float_mul F (Finite False 7205759403792794 (- 55))"
    using L F unfolding left_x_def int_mul_float_def literals by simp
  have rx: "rx = float_mul F (Finite False 7205759403792794 (- 53))"
    using R F unfolding right_x_def int_mul_float_def literals by simp
  define s :: rat where "s = of_int S"
  define vF where "vF = float_val F"
  have s1: "1 \<le> s" using S by (simp add: s_def)
  have eF: "\<bar>vF - s\<bar> \<le> s / 2 ^ 53"
    using float_of_int_pos[OF S F] unfolding vF_def s_def by blast
  obtain mt et where t: "ty = Finite False mt et"
    and et: "\<bar>float_val ty - vF * (1 / 4)\<bar> \<le> vF * (1 / 4) / 2 ^ 53"
    using scaled_bound[OF S F _ literal_values(1)] unfolding ty vF_def by auto
  obtain mb eb where b: "bt = Finite False mb eb"
    and eb: "\<bar>float_val bt - vF * (3 / 4)\<bar> \<le> vF * (3 / 4) / 2 ^ 53"
    using scaled_bound[OF S F _ literal_values(2)] unfolding bt vF_def by auto
  obtain ml el where l: "lx = Finite False ml el"
    and el: "\<bar>float_val lx - vF * (3602879701896397 / 18014398509481984)\<bar>
               \<le> vF * (3602879701896397 / 18014398509481984) / 2 ^ 53"
    using scaled_bound[OF S F _ literal_values(3)] unfolding lx vF_def by auto
  obtain mr er where r: "rx = Finite False mr er"
    and er: "\<bar>float_val rx - vF * (3602879701896397 / 4503599627370496)\<bar>
               \<le> vF * (3602879701896397 / 4503599627370496) / 2 ^ 53"
    using scaled_bound[OF S F _ literal_values(4)] unfolding rx vF_def by auto
  obtain mc ec where c: "cx = Finite False mc ec"
    and ec: "\<bar>float_val cx - s / 2\<bar> \<le> s / 2 / 2 ^ 53"
    using center_bound[OF S C] unfolding s_def by blast
  have "float_val ty < float_val bt"
    using s1 eF et eb unfolding abs_diff_le_iff by simp
  moreover have "float_val lx < float_val cx"
    using s1 eF el ec unfolding abs_diff_le_iff by simp
  moreover have "float_val cx < float_val rx"
    using s1 eF er ec unfolding abs_diff_le_iff by simp
  ultimately show ?thesis unfolding t b l r c by (simp only: float_lt.simps) 
qed

lemma triangle_returns:
  assumes S: "0 < S" and hi: "S < 2 ^ 1024 - 2 ^ 970"
  shows "\<exists>cx ty bt lx rx. center_x S = Inr cx \<and> top_y S = Inr ty \<and> bottom_y S = Inr bt \<and>
           left_x S = Inr lx \<and> right_x S = Inr rx"
proof -
  obtain F where F: "float_of_int S = Inr F" using float_of_int_returns[OF S hi] by blast
  have r: "(of_int S / 2 :: rat) = of_nat (nat S) / of_nat 2" using S by simp
  have "(2::rat) powi (- 1022) \<le> 2 powi (- 1)" by (intro power_int_increasing) simp_all
  moreover have s1: "(1::rat) \<le> of_int S" using S by simp
  ultimately have lo: "(2::rat) powi (- 1022) \<le> of_int S / 2" by simp
  have "(of_int S :: rat) < of_int (2 ^ 1024 - 2 ^ 970)" using hi by (simp only: of_int_less_iff)
  then have "(of_int S :: rat) < 2 powi 1024 - 2 powi 970" by simp
  then have hi': "(of_int S / 2 :: rat) < 2 powi 1024 - 2 powi 970" using s1 by simp
  have p: "0 < nat S" using S by simp
  have q: "(0::nat) < 2" by simp
  obtain m e where "round_to_double False (nat S) 2 = Finite False m e"
    using round_to_double_in_range[OF p q r lo hi'] by blast
  then have "center_x S = Inr (Finite False m e)"
    using S by (simp add: center_x_def int_truediv_def)
  then show ?thesis
    using F by (simp add: top_y_def bottom_y_def left_x_def right_x_def int_mul_float_def)
qed

lemma svg_content_overflow:
  assumes "2 ^ 1024 \<le> S"
  shows "svg_content S = Inl OverflowError"
proof -
  have F: "float_of_int S = Inl OverflowError" by (rule float_of_int_overflow[OF assms])
  have T: "top_y S = Inl OverflowError" by (simp add: top_y_def int_mul_float_def F)
  have "center_x S = Inl OverflowError \<or> (\<exists>cx. center_x S = Inr cx)"
    by (simp add: center_x_def int_truediv_def split: pyfloat.splits)
  then show ?thesis by (auto simp: svg_content_def T)
qed

subsection \<open>Width and height of the rendered text\<close>

lemma attr_square:
  assumes "S \<in> set sizes" and "svg_content S = Inr c"
  shows "attr ''width'' c = Some (str_int S) \<and> attr ''height'' c = Some (str_int S)"
proof -
  obtain cx ty bt lx rx where
    c: "c = svg_schema (str_int S) (float_repr cx) (float_repr bt) (float_repr lx)
              (float_repr ty) (float_repr rx) (float_repr ty)"
    using svg_content_schema[OF assms(2)] by blast
  have "S = 16 \<or> S = 32 \<or> S = 64 \<or> S = 128 \<or> S = 256 \<or> S = 512 \<or> S = 1024"
    using assms(1) by (simp add: sizes_def)
  then show ?thesis unfolding c by (elim disjE) (simp_all add: str_int_sizes attr_sizes)
qed

section \<open>The claims of the specification\<close>

text \<open>
  In the theorems below \<open>en\<close> is the environment, \<open>file\<close> the path of the script and \<open>w\<close>
  the world before the run; \<open>generate_icon en file w\<close> is the pair of the outcome (\<open>None\<close> for
  a complete run) and the world after the run.
\<close>

text \<open>
  Claim C2 (file presence law). After a complete run into a directory that held no files,
  the nominal file \<^verbatim>\<open>icon_{S}x{S}.svg\<close> exists if and only if \<open>S\<close> is in the list of sizes and
  \<open>S \<le> 512\<close>; the file \<^verbatim>\<open>icon_{N}x{N}@2x.svg\<close> exists if and only if some size \<open>S\<close> of the list
  has \<open>S div 2 = N\<close> and \<open>32 \<le> S \<le> 512\<close>; every file in the directory is one of these; and
  no file outside the directory is touched.
\<close>

theorem file_presence:
  assumes "no_faults en file"
    and "\<forall>p. prefix (iconset_dir file) p \<longrightarrow> files w p = None"
  shows "fst (generate_icon en file w) = None \<and>
    (\<forall>S. (files (snd (generate_icon en file w)) (iconset_dir file @ [nominal_file S]) \<noteq> None)
           = (S \<in> set sizes \<and> S \<le> 512)) \<and>
    (\<forall>N. (files (snd (generate_icon en file w)) (iconset_dir file @ [retina_file N]) \<noteq> None)
           = (\<exists>S \<in> set sizes. S div 2 = N \<and> 32 \<le> S \<and> S \<le> 512)) \<and>
    (\<forall>p. prefix (iconset_dir file) p \<and> files (snd (generate_icon en file w)) p \<noteq> None \<longrightarrow>
           (\<exists>S \<in> set sizes. S \<le> 512 \<and> p = iconset_dir file @ [nominal_file S]) \<or>
           (\<exists>S \<in> set sizes. 32 \<le> S \<and> S \<le> 512 \<and> p = iconset_dir file @ [retina_file (S div 2)])) \<and>
    (\<forall>p. \<not> prefix (iconset_dir file) p \<longrightarrow> files (snd (generate_icon en file w)) p = files w p)"
proof -
  let ?dir = "iconset_dir file"
  let ?w' = "snd (generate_icon en file w)"
  have files: "files ?w' = files w ++ map_of (plan ?dir sizes)"
    by (rule world_after_ok(2)[OF assms(1)])
  have dom: "\<And>p. (map_of (plan ?dir sizes) p \<noteq> None) = (p \<in> set (targets file))"
    by (simp add: map_of_eq_None_iff flip: plan_targets)
  have look: "\<And>p. files ?w' p = (case map_of (plan ?dir sizes) p of None \<Rightarrow> files w p | Some c \<Rightarrow> Some c)"
    by (simp add: files map_add_def)
  have sub: "\<And>p. p \<in> set (targets file) \<Longrightarrow> prefix ?dir p"
    by (auto simp: targets_def)
  have inside: "(files ?w' p \<noteq> None) = (p \<in> set (targets file))" if "prefix ?dir p" for p
  proof (cases "map_of (plan ?dir sizes) p")
    case None
    then show ?thesis using dom[of p] assms(2) that by (simp add: look)
  next
    case (Some c)
    then show ?thesis using dom[of p] by (simp add: look)
  qed
  have outside: "files ?w' p = files w p" if "\<not> prefix ?dir p" for p
  proof (cases "map_of (plan ?dir sizes) p")
    case None
    then show ?thesis by (simp add: look)
  next
    case (Some c)
    then have "p \<in> set (targets file)" using dom[of p] by simp
    then show ?thesis using sub that by blast
  qed
  have nom: "\<And>S. (files ?w' (?dir @ [nominal_file S]) \<noteq> None) = (S \<in> set sizes \<and> S \<le> 512)"
    using inside[of "?dir @ [nominal_file S]" for S]
    by (simp add: in_targets nominal_in_icon_files)
  have ret: "\<And>N. (files ?w' (?dir @ [retina_file N]) \<noteq> None)
               = (\<exists>S \<in> set sizes. S div 2 = N \<and> 32 \<le> S \<and> S \<le> 512)"
    using inside[of "?dir @ [retina_file N]" for N]
    by (simp add: in_targets retina_in_icon_files)
  have only: "\<And>p. prefix ?dir p \<and> files ?w' p \<noteq> None \<Longrightarrow>
           (\<exists>S \<in> set sizes. S \<le> 512 \<and> p = ?dir @ [nominal_file S]) \<or>
           (\<exists>S \<in> set sizes. 32 \<le> S \<and> S \<le> 512 \<and> p = ?dir @ [retina_file (S div 2)])"
  proof -
    fix p assume "prefix ?dir p \<and> files ?w' p \<noteq> None"
    then have "p \<in> set (targets file)" using inside by blast
    then obtain n where n: "n \<in> set icon_files" "p = ?dir @ [n]" by (auto simp: targets_def)
    from n(1) show "(\<exists>S \<in> set sizes. S \<le> 512 \<and> p = ?dir @ [nominal_file S]) \<or>
           (\<exists>S \<in> set sizes. 32 \<le> S \<and> S \<le> 512 \<and> p = ?dir @ [retina_file (S div 2)])"
      unfolding n(2) by (simp add: icon_files_patterns sizes_def) (elim disjE; simp)
  qed
  show ?thesis
    using world_after_ok(1)[OF assms(1)] nom ret only outside by blast
qed

text \<open>The law at the concrete run: sizes 512 and 1024, halves 16 and 512.\<close>

theorem file_presence_witness:
  "files (snd (generate_icon env_ok file_example world_empty))
     (iconset_dir file_example @ [nominal_file 512]) \<noteq> None \<and>
   files (snd (generate_icon env_ok file_example world_empty))
     (iconset_dir file_example @ [nominal_file 1024]) = None \<and>
   files (snd (generate_icon env_ok file_example world_empty))
     (iconset_dir file_example @ [retina_file 16]) \<noteq> None \<and>
   files (snd (generate_icon env_ok file_example world_empty))
     (iconset_dir file_example @ [retina_file 512]) = None"
proof -
  have e: "\<forall>p. prefix (iconset_dir file_example) p \<longrightarrow> files world_empty p = None"
    by (simp add: world_empty_def)
  note t = file_presence[OF no_faults_env_ok e]
  have a: "(512::int) \<in> set sizes \<and> (512::int) \<le> 512" by (simp add: sizes_def)
  have b: "\<not> ((1024::int) \<in> set sizes \<and> (1024::int) \<le> 512)" by simp
  have c: "\<exists>S \<in> set sizes. S div 2 = 16 \<and> 32 \<le> S \<and> S \<le> 512" by (simp add: sizes_def)
  have d: "\<not> (\<exists>S \<in> set sizes. S div 2 = 512 \<and> 32 \<le> S \<and> S \<le> 512)" by (simp add: sizes_def)
  show ?thesis using t a b c d by blast
qed

text \<open>
  Claim C10. For every size \<open>S\<close> of the list with \<open>32 \<le> S \<le> 512\<close>, the file
  \<^verbatim>\<open>icon_{S/2}x{S/2}@2x.svg\<close> and the file \<^verbatim>\<open>icon_{S}x{S}.svg\<close> receive the same text, the one
  rendered for \<open>S\<close>: the two writes follow each other in the log of writes, and the two files
  hold that text after the run.
\<close>

theorem retina_same_content:
  assumes "no_faults en file"
  shows "\<forall>S \<in> set sizes. 32 \<le> S \<and> S \<le> 512 \<longrightarrow>
    (\<exists>c. svg_content S = Inr c \<and>
      files (snd (generate_icon en file w)) (iconset_dir file @ [nominal_file S]) = Some c \<and>
      files (snd (generate_icon en file w)) (iconset_dir file @ [retina_file (S div 2)]) = Some c \<and>
      (\<exists>i. i + 1 < length (writes_of w (snd (generate_icon en file w))) \<and>
        writes_of w (snd (generate_icon en file w)) ! i = (iconset_dir file @ [nominal_file S], c) \<and>
        writes_of w (snd (generate_icon en file w)) ! (i + 1)
          = (iconset_dir file @ [retina_file (S div 2)], c)))"
proof (intro ballI impI)
  fix S :: int
  assume S: "S \<in> set sizes" and r: "32 \<le> S \<and> S \<le> 512"
  let ?w' = "snd (generate_icon en file w)"
  let ?dir = "iconset_dir file"
  have c: "svg_content S = Inr (svg_of S)" by (rule svg_content_svg_of[OF S])
  have log: "writes_of w ?w' = plan ?dir sizes" by (rule world_after_ok(4)[OF assms])
  from S r consider "S = 32" | "S = 64" | "S = 128" | "S = 256" | "S = 512"
    by (auto simp: sizes_def)
  then have "files ?w' (?dir @ [nominal_file S]) = Some (svg_of S) \<and>
      files ?w' (?dir @ [retina_file (S div 2)]) = Some (svg_of S) \<and>
      (\<exists>i. i + 1 < length (plan ?dir sizes) \<and>
        plan ?dir sizes ! i = (?dir @ [nominal_file S], svg_of S) \<and>
        plan ?dir sizes ! (i + 1) = (?dir @ [retina_file (S div 2)], svg_of S))"
  proof cases
    case 1
    show ?thesis unfolding 1
      by (simp add: files_after_ok[OF assms] pattern_names) (intro conjI exI[of _ 1]; simp add: plan_sizes)
  next
    case 2
    show ?thesis unfolding 2
      by (simp add: files_after_ok[OF assms] pattern_names) (intro conjI exI[of _ 3]; simp add: plan_sizes)
  next
    case 3
    show ?thesis unfolding 3
      by (simp add: files_after_ok[OF assms] pattern_names) (intro conjI exI[of _ 5]; simp add: plan_sizes)
  next
    case 4
    show ?thesis unfolding 4
      by (simp add: files_after_ok[OF assms] pattern_names) (intro conjI exI[of _ 7]; simp add: plan_sizes)
  next
    case 5
    show ?thesis unfolding 5
      by (simp add: files_after_ok[OF assms] pattern_names) (intro conjI exI[of _ 9]; simp add: plan_sizes)
  qed
  then show "\<exists>c. svg_content S = Inr c \<and>
      files ?w' (?dir @ [nominal_file S]) = Some c \<and>
      files ?w' (?dir @ [retina_file (S div 2)]) = Some c \<and>
      (\<exists>i. i + 1 < length (writes_of w ?w') \<and>
        writes_of w ?w' ! i = (?dir @ [nominal_file S], c) \<and>
        writes_of w ?w' ! (i + 1) = (?dir @ [retina_file (S div 2)], c))"
    using c unfolding log by blast
qed

text \<open>The claim at the concrete run, for \<open>S = 32\<close>.\<close>

theorem retina_same_content_witness:
  "\<exists>c. svg_content 32 = Inr c \<and>
     files (snd (generate_icon env_ok file_example world_empty))
       (iconset_dir file_example @ [nominal_file 32]) = Some c \<and>
     files (snd (generate_icon env_ok file_example world_empty))
       (iconset_dir file_example @ [retina_file 16]) = Some c"
proof -
  have "(32::int) \<in> set sizes" "(32::int) \<le> 32 \<and> (32::int) \<le> 512" by (simp_all add: sizes_def)
  with retina_same_content[OF no_faults_env_ok, of file_example world_empty]
  obtain c where "svg_content 32 = Inr c"
    "files (snd (generate_icon env_ok file_example world_empty))
       (iconset_dir file_example @ [nominal_file 32]) = Some c"
    "files (snd (generate_icon env_ok file_example world_empty))
       (iconset_dir file_example @ [retina_file (32 div 2)]) = Some c"
    by blast
  then show ?thesis by auto
qed

text \<open>
  Claim C9. In a run (complete or not) every written path is distinct from every other
  written path. No two nominal names coincide unless their sizes do, no two double-density
  names coincide unless their sizes do, and a nominal name never is a double-density name.
\<close>

theorem written_paths_distinct:
  "distinct (map fst (writes_of w (snd (generate_icon en file w)))) \<and>
   (nominal_file S = nominal_file T) = (S = T) \<and>
   (retina_file M = retina_file N) = (M = N) \<and>
   nominal_file S \<noteq> retina_file N"
proof -
  obtain k where "writes_of w (snd (generate_icon en file w)) = take k (plan (iconset_dir file) sizes)"
    using run_log by blast
  then have "distinct (map fst (writes_of w (snd (generate_icon en file w))))"
    using distinct_plan[of "file"] by (simp add: take_map[symmetric] distinct_take)
  then show ?thesis
    using nominal_file_eq retina_file_eq nominal_not_retina by blast
qed

text \<open>
  Claim C6 (idempotence). A second complete run after a first complete run, in the same
  environment, writes the same paths with the same text as the first, and leaves the files
  and the directories exactly as the first run left them: nothing accumulates.
\<close>

theorem rerun_idempotent:
  assumes "no_faults en file"
  shows "fst (generate_icon en file (snd (generate_icon en file w))) = None \<and>
    files (snd (generate_icon en file (snd (generate_icon en file w))))
      = files (snd (generate_icon en file w)) \<and>
    dirs (snd (generate_icon en file (snd (generate_icon en file w))))
      = dirs (snd (generate_icon en file w)) \<and>
    writes_of (snd (generate_icon en file w)) (snd (generate_icon en file (snd (generate_icon en file w))))
      = writes_of w (snd (generate_icon en file w))"
proof -
  have "m ++ n ++ n = m ++ n" for m n :: "path \<rightharpoonup> string"
    by (rule ext) (simp add: map_add_def split: option.splits)
  then show ?thesis
    by (simp add: world_after_ok[OF assms] Un_assoc)
qed

text \<open>The claim at the concrete run: the second run rewrites the eleven files.\<close>

theorem rerun_idempotent_witness:
  "files (snd (generate_icon env_ok file_example (snd (generate_icon env_ok file_example world_empty))))
      = files (snd (generate_icon env_ok file_example world_empty)) \<and>
   length (writes_of (snd (generate_icon env_ok file_example world_empty))
      (snd (generate_icon env_ok file_example (snd (generate_icon env_ok file_example world_empty))))) = 11"
  using rerun_idempotent[OF no_faults_env_ok, of file_example world_empty]
  by (simp add: world_after_ok(4)[OF no_faults_env_ok] length_plan)

text \<open>
  Claim C1 says that for the size 1024 no file \<^verbatim>\<open>icon_1024x1024.svg\<close> is produced, but that
  \<^verbatim>\<open>icon_512x512@2x.svg\<close> is, with width and height 1024 and the polygon points
  \<^verbatim>\<open>512,768 204.8,256 819.2,256\<close>. The script does not do that: the second write is guarded
  by \<^verbatim>\<open>size >= 32 and size <= 512\<close>, so nothing is written for 1024, and the coordinates are
  floats, which print with a fractional part. After the concrete run the file
  \<^verbatim>\<open>icon_512x512@2x.svg\<close> does not exist, and the text rendered for 1024 has other points.
\<close>

theorem no_retina_512_counterexample:
  "files (snd (generate_icon env_ok file_example world_empty))
     (iconset_dir file_example @ [''icon_512x512@2x.svg'']) = None \<and>
   svg_content 1024 =
     Inr (svg_schema ''1024'' ''512.0'' ''768.0'' ''204.8'' ''256.0'' ''819.2'' ''256.0'')"
  by (simp add: files_after_ok[OF no_faults_env_ok] plan_sizes world_empty_def svg_content_sizes)

text \<open>
  Claim C1 as amended: for the size 1024 a complete run writes no file
  \<^verbatim>\<open>icon_1024x1024.svg\<close> (a file of that name is left as it was), and the text rendered for
  1024 has width and height 1024 and the polygon points
  \<^verbatim>\<open>512.0,768.0 204.8,256.0 819.2,256.0\<close>.
\<close>

theorem size_1024:
  assumes "no_faults en file"
  shows "iconset_dir file @ [''icon_1024x1024.svg'']
           \<notin> fst ` set (writes_of w (snd (generate_icon en file w))) \<and>
    files (snd (generate_icon en file w)) (iconset_dir file @ [''icon_1024x1024.svg''])
      = files w (iconset_dir file @ [''icon_1024x1024.svg'']) \<and>
    (\<exists>c. svg_content 1024 = Inr c \<and>
       attr ''width'' c = Some ''1024'' \<and> attr ''height'' c = Some ''1024'' \<and>
       attr ''points'' c = Some ''512.0,768.0 204.8,256.0 819.2,256.0'')"
  by (simp add: world_after_ok(4)[OF assms] files_after_ok[OF assms] plan_sizes
      svg_content_sizes attr_sizes attr_points_1024)

text \<open>The amended claim at the concrete run.\<close>

theorem size_1024_witness:
  "iconset_dir file_example @ [''icon_1024x1024.svg'']
           \<notin> fst ` set (writes_of world_empty (snd (generate_icon env_ok file_example world_empty))) \<and>
    files (snd (generate_icon env_ok file_example world_empty))
      (iconset_dir file_example @ [''icon_1024x1024.svg'']) = None"
  using size_1024[OF no_faults_env_ok, of file_example world_empty]
  by (simp add: world_empty_def)

text \<open>
  Claim C3 says that the polygon points of \<^verbatim>\<open>icon_32x32.svg\<close> are exactly
  \<^verbatim>\<open>16,24 6.4,8 25.6,8\<close>. The script computes the coordinates as floats (\<^verbatim>\<open>size / 2\<close>,
  \<^verbatim>\<open>size * 0.25\<close>), and Python prints the float 16.0 as \<^verbatim>\<open>16.0\<close>: after the concrete run the
  points of that file are \<^verbatim>\<open>16.0,24.0 6.4,8.0 25.6,8.0\<close>.
\<close>

theorem points_32_counterexample:
  "map_option (attr ''points'')
     (files (snd (generate_icon env_ok file_example world_empty))
        (iconset_dir file_example @ [''icon_32x32.svg'']))
     = Some (Some ''16.0,24.0 6.4,8.0 25.6,8.0'') \<and>
   ''16.0,24.0 6.4,8.0 25.6,8.0'' \<noteq> ''16,24 6.4,8 25.6,8''"
  by (simp add: files_after_ok[OF no_faults_env_ok] plan_sizes svg_of_sizes attr_points_32)

text \<open>
  Claim C3 as amended: a complete run writes \<^verbatim>\<open>icon_32x32.svg\<close> and \<^verbatim>\<open>icon_16x16@2x.svg\<close>
  with the same text, whose polygon points are \<^verbatim>\<open>16.0,24.0 6.4,8.0 25.6,8.0\<close> and whose
  width and height are 32.
\<close>

theorem size_32:
  assumes "no_faults en file"
  shows "\<exists>c. files (snd (generate_icon en file w)) (iconset_dir file @ [''icon_32x32.svg'']) = Some c \<and>
    files (snd (generate_icon en file w)) (iconset_dir file @ [''icon_16x16@2x.svg'']) = Some c \<and>
    attr ''points'' c = Some ''16.0,24.0 6.4,8.0 25.6,8.0'' \<and>
    attr ''width'' c = Some ''32'' \<and> attr ''height'' c = Some ''32''"
  by (simp add: files_after_ok[OF assms] plan_sizes svg_of_sizes attr_sizes attr_points_32)

text \<open>The amended claim at the concrete run.\<close>

theorem size_32_witness:
  "\<exists>c. files (snd (generate_icon env_ok file_example world_empty))
          (iconset_dir file_example @ [''icon_32x32.svg'']) = Some c \<and>
    files (snd (generate_icon env_ok file_example world_empty))
          (iconset_dir file_example @ [''icon_16x16@2x.svg'']) = Some c \<and>
    attr ''points'' c = Some ''16.0,24.0 6.4,8.0 25.6,8.0'' \<and>
    attr ''width'' c = Some ''32'' \<and> attr ''height'' c = Some ''32''"
  using size_32[OF no_faults_env_ok, of file_example world_empty] .

text \<open>
  Claim C8. A failure to create the directory ends the run at once, with the world
  unchanged. A failure of a write ends the run there: the writes before it are done, no
  later path is touched, nothing is retried. The run completes exactly when nothing fails,
  the only outcome of a run that does not complete is the unhandled error, and the two
  completion lines are printed when the run completes and not otherwise.
\<close>

theorem abort_on_failure:
  "(mkdir_fault en \<longrightarrow> generate_icon en file w = (Some OSError, w)) \<and>
   (fst (generate_icon en file w) = None) = no_faults en file \<and>
   (fst (generate_icon en file w) = None \<longrightarrow>
      stdout (snd (generate_icon en file w)) = stdout w @ completion_messages file) \<and>
   (fst (generate_icon en file w) \<noteq> None \<longrightarrow>
      fst (generate_icon en file w) = Some OSError \<and>
      stdout (snd (generate_icon en file w)) = stdout w) \<and>
   (\<forall>k < 11. \<not> mkdir_fault en \<and> (\<forall>i < k. file_fault en (targets file ! i) = NoFault) \<and>
        file_fault en (targets file ! k) \<noteq> NoFault \<longrightarrow>
      fst (generate_icon en file w) = Some OSError \<and>
      map fst (writes_of w (snd (generate_icon en file w))) = take k (targets file) \<and>
      (\<forall>j. k < j \<and> j < 11 \<longrightarrow>
         files (snd (generate_icon en file w)) (targets file ! j) = files w (targets file ! j)))"
proof -
  have mk: "mkdir_fault en \<longrightarrow> generate_icon en file w = (Some OSError, w)"
    by (simp add: run_mkdir_fault)
  have ok: "no_faults en file \<Longrightarrow> fst (generate_icon en file w) = None \<and>
      stdout (snd (generate_icon en file w)) = stdout w @ completion_messages file"
    by (simp add: world_after_ok)
  have bad: "fst (generate_icon en file w) = Some OSError \<and>
      stdout (snd (generate_icon en file w)) = stdout w" if "\<not> no_faults en file"
  proof (cases "mkdir_fault en")
    case True
    then show ?thesis by (simp add: run_mkdir_fault)
  next
    case False
    then have "\<not> list_all (\<lambda>p. file_fault en p = NoFault) (targets file)"
      using that by (simp add: no_faults_def)
    then obtain k where k: "k < 11" "\<forall>i < k. file_fault en (targets file ! i) = NoFault"
      "file_fault en (targets file ! k) \<noteq> NoFault"
      using first_failure[of "\<lambda>p. file_fault en p = NoFault" "targets file"]
      by (auto simp: length_targets)
    show ?thesis using world_after_fault(1,2)[OF False k] by simp
  qed
  have iff: "(fst (generate_icon en file w) = None) = no_faults en file"
    using ok bad by (cases "no_faults en file") simp_all
  have pr: "fst (generate_icon en file w) = None \<longrightarrow>
      stdout (snd (generate_icon en file w)) = stdout w @ completion_messages file"
    using ok iff by simp
  have npr: "fst (generate_icon en file w) \<noteq> None \<longrightarrow>
      fst (generate_icon en file w) = Some OSError \<and>
      stdout (snd (generate_icon en file w)) = stdout w"
    using bad iff by auto
  have rest: "\<forall>k < 11. \<not> mkdir_fault en \<and> (\<forall>i < k. file_fault en (targets file ! i) = NoFault) \<and>
        file_fault en (targets file ! k) \<noteq> NoFault \<longrightarrow>
      fst (generate_icon en file w) = Some OSError \<and>
      map fst (writes_of w (snd (generate_icon en file w))) = take k (targets file) \<and>
      (\<forall>j. k < j \<and> j < 11 \<longrightarrow>
         files (snd (generate_icon en file w)) (targets file ! j) = files w (targets file ! j))"
  proof (intro allI impI)
    fix k :: nat
    assume k: "k < 11"
      and "\<not> mkdir_fault en \<and> (\<forall>i < k. file_fault en (targets file ! i) = NoFault) \<and>
        file_fault en (targets file ! k) \<noteq> NoFault"
    then have a: "\<not> mkdir_fault en" "\<forall>i < k. file_fault en (targets file ! i) = NoFault"
      "file_fault en (targets file ! k) \<noteq> NoFault" by simp_all
    show "fst (generate_icon en file w) = Some OSError \<and>
      map fst (writes_of w (snd (generate_icon en file w))) = take k (targets file) \<and>
      (\<forall>j. k < j \<and> j < 11 \<longrightarrow>
         files (snd (generate_icon en file w)) (targets file ! j) = files w (targets file ! j))"
      using world_after_fault(1,3,4)[OF a(1) k a(2,3), of w] by (intro conjI)
  qed
  show ?thesis by (intro conjI) (rule mk, rule iff, rule pr, rule npr, rule rest)
qed

text \<open>
  The claim at a concrete run in which the third write (to \<^verbatim>\<open>icon_16x16@2x.svg\<close>) fails:
  the outcome is the error, nothing is printed, the two writes before it are done and the
  fourth path is not touched.
\<close>

theorem abort_on_failure_witness:
  "fst (generate_icon (env_failing (targets file_example ! 2)) file_example world_empty) = Some OSError \<and>
   stdout (snd (generate_icon (env_failing (targets file_example ! 2)) file_example world_empty)) = [] \<and>
   map fst (writes_of world_empty
      (snd (generate_icon (env_failing (targets file_example ! 2)) file_example world_empty)))
     = take 2 (targets file_example) \<and>
   files (snd (generate_icon (env_failing (targets file_example ! 2)) file_example world_empty))
     (targets file_example ! 3) = None"
proof -
  let ?en = "env_failing (targets file_example ! 2)"
  have i: "\<forall>i < 2. file_fault ?en (targets file_example ! i) = NoFault"
  proof (intro allI impI)
    fix i :: nat assume "i < 2"
    then have "i = 0 \<or> i = 1" by arith
    then show "file_fault ?en (targets file_example ! i) = NoFault"
      by (auto simp: env_failing_def targets_def icon_files_def)
  qed
  have h: "\<not> mkdir_fault ?en \<and> (\<forall>i < 2. file_fault ?en (targets file_example ! i) = NoFault) \<and>
        file_fault ?en (targets file_example ! 2) \<noteq> NoFault"
    using i by (simp add: env_failing_def)
  have k: "(2::nat) < 11" "(2::nat) < 3 \<and> (3::nat) < 11" by simp_all
  have e: "files world_empty (targets file_example ! 3) = None" "stdout world_empty = []"
    by (simp_all add: world_empty_def)
  note t = abort_on_failure[of ?en file_example world_empty]
  from t have "\<forall>k < 11. \<not> mkdir_fault ?en \<and> (\<forall>i < k. file_fault ?en (targets file_example ! i) = NoFault) \<and>
        file_fault ?en (targets file_example ! k) \<noteq> NoFault \<longrightarrow>
      fst (generate_icon ?en file_example world_empty) = Some OSError \<and>
      map fst (writes_of world_empty (snd (generate_icon ?en file_example world_empty)))
        = take k (targets file_example) \<and>
      (\<forall>j. k < j \<and> j < 11 \<longrightarrow>
         files (snd (generate_icon ?en file_example world_empty)) (targets file_example ! j)
           = files world_empty (targets file_example ! j))"
    by (elim conjE)
  then have r: "fst (generate_icon ?en file_example world_empty) = Some OSError \<and>
      map fst (writes_of world_empty (snd (generate_icon ?en file_example world_empty)))
        = take 2 (targets file_example) \<and>
      (\<forall>j. 2 < j \<and> j < 11 \<longrightarrow>
         files (snd (generate_icon ?en file_example world_empty)) (targets file_example ! j)
           = files world_empty (targets file_example ! j))"
    using h k(1) by blast
  then have f: "files (snd (generate_icon ?en file_example world_empty)) (targets file_example ! 3) = None"
    using k(2) e(1) by metis
  from t r have "stdout (snd (generate_icon ?en file_example world_empty)) = stdout world_empty"
    by simp
  then show ?thesis using r f e(2) by simp
qed

text \<open>
  Claim C5. Every file produced holds an instance of the SVG schema: the XML declaration,
  the \<^verbatim>\<open>svg\<close> element whose width and height are the size \<open>S\<close> and whose view box is
  \<^verbatim>\<open>0 0 S S\<close>, and one black polygon whose vertices are, in this order, the bottom vertex
  \<open>(center_x, bottom_y)\<close>, the top left vertex \<open>(left_x, top_y)\<close> and the top right vertex
  \<open>(right_x, top_y)\<close>, each coordinate printed as Python prints a float. The size \<open>S\<close> is the
  one that names the file: \<open>S\<close> for the nominal file of \<open>S\<close>, and \<open>S\<close> for the double-density
  file of \<open>S div 2\<close>. A complete run writes exactly the eleven paths, and after it each of
  them holds that text; in any run, complete or not, every write that was done wrote that
  text.
\<close>

theorem written_files_schema:
  "(no_faults en file \<longrightarrow>
      fst (generate_icon en file w) = None \<and>
      map fst (writes_of w (snd (generate_icon en file w))) = targets file \<and>
      (\<forall>p \<in> set (targets file). \<exists>S \<in> set sizes. \<exists>cx ty bt lx rx.
         center_x S = Inr cx \<and> top_y S = Inr ty \<and> bottom_y S = Inr bt \<and>
         left_x S = Inr lx \<and> right_x S = Inr rx \<and>
         (S \<le> 512 \<and> p = iconset_dir file @ [nominal_file S] \<or>
          32 \<le> S \<and> S \<le> 512 \<and> p = iconset_dir file @ [retina_file (S div 2)]) \<and>
         files (snd (generate_icon en file w)) p =
           Some (svg_schema (str_int S) (float_repr cx) (float_repr bt) (float_repr lx)
                   (float_repr ty) (float_repr rx) (float_repr ty)))) \<and>
   (\<forall>(p, c) \<in> set (writes_of w (snd (generate_icon en file w))).
      \<exists>S \<in> set sizes. \<exists>cx ty bt lx rx.
        center_x S = Inr cx \<and> top_y S = Inr ty \<and> bottom_y S = Inr bt \<and>
        left_x S = Inr lx \<and> right_x S = Inr rx \<and>
        (S \<le> 512 \<and> p = iconset_dir file @ [nominal_file S] \<or>
         32 \<le> S \<and> S \<le> 512 \<and> p = iconset_dir file @ [retina_file (S div 2)]) \<and>
        c = svg_schema (str_int S) (float_repr cx) (float_repr bt) (float_repr lx)
              (float_repr ty) (float_repr rx) (float_repr ty))"
proof -
  let ?dir = "iconset_dir file"
  let ?w' = "snd (generate_icon en file w)"
  let ?pl = "plan ?dir sizes"
  have entry: "\<exists>S \<in> set sizes. \<exists>cx ty bt lx rx.
        center_x S = Inr cx \<and> top_y S = Inr ty \<and> bottom_y S = Inr bt \<and>
        left_x S = Inr lx \<and> right_x S = Inr rx \<and>
        (S \<le> 512 \<and> p = ?dir @ [nominal_file S] \<or>
         32 \<le> S \<and> S \<le> 512 \<and> p = ?dir @ [retina_file (S div 2)]) \<and>
        c = svg_schema (str_int S) (float_repr cx) (float_repr bt) (float_repr lx)
              (float_repr ty) (float_repr rx) (float_repr ty)"
    if pc: "(p, c) \<in> set ?pl" for p c
  proof -
    obtain S where S: "S \<in> set sizes" "svg_content S = Inr c"
      "S \<le> 512 \<and> p = ?dir @ [nominal_file S] \<or>
       32 \<le> S \<and> S \<le> 512 \<and> p = ?dir @ [retina_file (S div 2)]"
      using plan_entry[OF pc] by blast
    obtain cx ty bt lx rx where
      "center_x S = Inr cx" "top_y S = Inr ty" "bottom_y S = Inr bt"
      "left_x S = Inr lx" "right_x S = Inr rx"
      "c = svg_schema (str_int S) (float_repr cx) (float_repr bt) (float_repr lx)
              (float_repr ty) (float_repr rx) (float_repr ty)"
      using svg_content_schema[OF S(2)] by blast
    then show ?thesis using S(1,3) by blast
  qed
  have logged: "\<forall>(p, c) \<in> set (writes_of w ?w').
      \<exists>S \<in> set sizes. \<exists>cx ty bt lx rx.
        center_x S = Inr cx \<and> top_y S = Inr ty \<and> bottom_y S = Inr bt \<and>
        left_x S = Inr lx \<and> right_x S = Inr rx \<and>
        (S \<le> 512 \<and> p = ?dir @ [nominal_file S] \<or>
         32 \<le> S \<and> S \<le> 512 \<and> p = ?dir @ [retina_file (S div 2)]) \<and>
        c = svg_schema (str_int S) (float_repr cx) (float_repr bt) (float_repr lx)
              (float_repr ty) (float_repr rx) (float_repr ty)"
  proof (intro ballI, clarify)
    fix p c assume "(p, c) \<in> set (writes_of w ?w')"
    moreover obtain k where "writes_of w ?w' = take k ?pl" using run_log by blast
    ultimately have "(p, c) \<in> set ?pl" by (auto dest: in_set_takeD)
    then show "\<exists>S \<in> set sizes. \<exists>cx ty bt lx rx.
        center_x S = Inr cx \<and> top_y S = Inr ty \<and> bottom_y S = Inr bt \<and>
        left_x S = Inr lx \<and> right_x S = Inr rx \<and>
        (S \<le> 512 \<and> p = ?dir @ [nominal_file S] \<or>
         32 \<le> S \<and> S \<le> 512 \<and> p = ?dir @ [retina_file (S div 2)]) \<and>
        c = svg_schema (str_int S) (float_repr cx) (float_repr bt) (float_repr lx)
              (float_repr ty) (float_repr rx) (float_repr ty)"
      by (rule entry)
  qed
  have complete: "fst (generate_icon en file w) = None \<and>
      map fst (writes_of w ?w') = targets file \<and>
      (\<forall>p \<in> set (targets file). \<exists>S \<in> set sizes. \<exists>cx ty bt lx rx.
         center_x S = Inr cx \<and> top_y S = Inr ty \<and> bottom_y S = Inr bt \<and>
         left_x S = Inr lx \<and> right_x S = Inr rx \<and>
         (S \<le> 512 \<and> p = ?dir @ [nominal_file S] \<or>
          32 \<le> S \<and> S \<le> 512 \<and> p = ?dir @ [retina_file (S div 2)]) \<and>
         files ?w' p =
           Some (svg_schema (str_int S) (float_repr cx) (float_repr bt) (float_repr lx)
                   (float_repr ty) (float_repr rx) (float_repr ty)))"
    if nf: "no_faults en file"
  proof (intro conjI ballI)
    show "fst (generate_icon en file w) = None" by (rule world_after_ok(1)[OF nf])
    show "map fst (writes_of w ?w') = targets file"
      by (simp add: world_after_ok(4)[OF nf] plan_targets)
    fix p assume "p \<in> set (targets file)"
    then have "p \<in> fst ` set ?pl" by (simp flip: plan_targets)
    then obtain c where pc: "(p, c) \<in> set ?pl" by auto
    have "map_of ?pl p = Some c"
      using distinct_plan pc by (rule map_of_is_SomeI)
    then have f: "files ?w' p = Some c" by (simp add: files_after_ok[OF nf])
    show "\<exists>S \<in> set sizes. \<exists>cx ty bt lx rx.
         center_x S = Inr cx \<and> top_y S = Inr ty \<and> bottom_y S = Inr bt \<and>
         left_x S = Inr lx \<and> right_x S = Inr rx \<and>
         (S \<le> 512 \<and> p = ?dir @ [nominal_file S] \<or>
          32 \<le> S \<and> S \<le> 512 \<and> p = ?dir @ [retina_file (S div 2)]) \<and>
         files ?w' p =
           Some (svg_schema (str_int S) (float_repr cx) (float_repr bt) (float_repr lx)
                   (float_repr ty) (float_repr rx) (float_repr ty))"
      using entry[OF pc] unfolding f by blast
  qed
  show ?thesis using complete logged by blast
qed

text \<open>
  The claim at the concrete run: the run completes, writes the eleven paths, and
  \<^verbatim>\<open>icon_32x32.svg\<close> holds the schema with the size 32 and the coordinates of 32.
\<close>

theorem written_files_schema_witness:
  "fst (generate_icon env_ok file_example world_empty) = None \<and>
   map fst (writes_of world_empty (snd (generate_icon env_ok file_example world_empty)))
     = targets file_example \<and>
   length (writes_of world_empty (snd (generate_icon env_ok file_example world_empty))) = 11 \<and>
   files (snd (generate_icon env_ok file_example world_empty))
     (iconset_dir file_example @ [''icon_32x32.svg''])
     = Some (svg_schema ''32'' ''16.0'' ''24.0'' ''6.4'' ''8.0'' ''25.6'' ''8.0'')"
proof -
  let ?W = "snd (generate_icon env_ok file_example world_empty)"
  let ?dir = "iconset_dir file_example"
  let ?p = "?dir @ [''icon_32x32.svg'']"
  note t = written_files_schema[of env_ok file_example world_empty]
  from t no_faults_env_ok[of file_example]
  have r: "fst (generate_icon env_ok file_example world_empty) = None"
    and m: "map fst (writes_of world_empty ?W) = targets file_example"
    and a: "\<forall>p \<in> set (targets file_example). \<exists>S \<in> set sizes. \<exists>cx ty bt lx rx.
         center_x S = Inr cx \<and> top_y S = Inr ty \<and> bottom_y S = Inr bt \<and>
         left_x S = Inr lx \<and> right_x S = Inr rx \<and>
         (S \<le> 512 \<and> p = ?dir @ [nominal_file S] \<or>
          32 \<le> S \<and> S \<le> 512 \<and> p = ?dir @ [retina_file (S div 2)]) \<and>
         files ?W p =
           Some (svg_schema (str_int S) (float_repr cx) (float_repr bt) (float_repr lx)
                   (float_repr ty) (float_repr rx) (float_repr ty))"
    by blast+
  have "?p \<in> set (targets file_example)" by (simp add: targets_def icon_files_def)
  with a obtain S cx ty bt lx rx where
    c: "center_x S = Inr cx" "top_y S = Inr ty" "bottom_y S = Inr bt"
       "left_x S = Inr lx" "right_x S = Inr rx"
    and n: "S \<le> 512 \<and> ?p = ?dir @ [nominal_file S] \<or>
          32 \<le> S \<and> S \<le> 512 \<and> ?p = ?dir @ [retina_file (S div 2)]"
    and f: "files ?W ?p =
           Some (svg_schema (str_int S) (float_repr cx) (float_repr bt) (float_repr lx)
                   (float_repr ty) (float_repr rx) (float_repr ty))"
    by blast
  from n have "nominal_file 32 = nominal_file S \<or> nominal_file 32 = retina_file (S div 2)"
    by (auto simp: pattern_names)
  then have S: "S = 32" using nominal_file_inj nominal_not_retina by blast
  have "files ?W ?p = Some (svg_schema ''32'' ''16.0'' ''24.0'' ''6.4'' ''8.0'' ''25.6'' ''8.0'')"
    using c f unfolding S
    by (auto simp: center_x_sizes top_y_sizes bottom_y_sizes left_x_sizes right_x_sizes
        str_int_sizes float_repr_sizes)
  moreover have "length (writes_of world_empty ?W) = 11"
    using arg_cong[OF m, of length] by (simp add: length_targets)
  ultimately show ?thesis using r m by blast
qed

text \<open>
  Claim C4 says that the five coordinates are \<open>0.25 S\<close>, \<open>0.75 S\<close>, \<open>0.2 S\<close>, \<open>0.8 S\<close> and
  \<open>0.5 S\<close> in the numeric type of the size, an integer. The script computes them with
  \<^verbatim>\<open>size / 2\<close> and \<^verbatim>\<open>size * 0.2\<close>, which are floats: for the size 16 the left edge is the
  float that prints as \<^verbatim>\<open>3.2\<close>, which lies strictly between 3 and 4 and is not exactly
  \<open>0.2 * 16\<close> either.
\<close>

theorem left_x_16_counterexample:
  "left_x 16 = Inr (Finite False 7205759403792794 (- 51)) \<and>
   3 < float_val (Finite False 7205759403792794 (- 51)) \<and>
   float_val (Finite False 7205759403792794 (- 51)) < 4 \<and>
   float_val (Finite False 7205759403792794 (- 51)) \<noteq> 2 / 10 * 16 \<and>
   float_repr (Finite False 7205759403792794 (- 51)) = ''3.2''"
  by (simp add: left_x_sizes float_repr_3_2)

text \<open>
  Claim C4 as amended: for every size \<open>S\<close> of the list the five coordinates are floats;
  \<open>center_x\<close>, \<open>top_y\<close> and \<open>bottom_y\<close> have exactly the values \<open>S / 2\<close>, \<open>S / 4\<close> and
  \<open>3 S / 4\<close>, and \<open>left_x\<close> and \<open>right_x\<close> are the floats nearest to \<open>S / 5\<close> and \<open>4 S / 5\<close>,
  within a relative error of \<open>2\<^sup>-\<^sup>5\<^sup>3\<close>.
\<close>

theorem coordinates_are_floats:
  "\<forall>S \<in> set sizes. \<exists>cx ty bt lx rx.
     center_x S = Inr cx \<and> top_y S = Inr ty \<and> bottom_y S = Inr bt \<and>
     left_x S = Inr lx \<and> right_x S = Inr rx \<and>
     float_val cx = of_int S / 2 \<and> float_val ty = of_int S / 4 \<and>
     float_val bt = 3 * of_int S / 4 \<and>
     lx = round_to_double False (nat S) 5 \<and> rx = round_to_double False (nat (4 * S)) 5 \<and>
     \<bar>float_val lx - of_int S / 5\<bar> \<le> of_int S / 5 / 2 ^ 53 \<and>
     \<bar>float_val rx - 4 * of_int S / 5\<bar> \<le> 4 * of_int S / 5 / 2 ^ 53"
  by (simp add: sizes_def center_x_sizes top_y_sizes bottom_y_sizes left_x_sizes right_x_sizes
      nearest_fifths)

text \<open>The amended claim for the size 16.\<close>

theorem coordinates_are_floats_witness:
  "\<exists>cx ty bt lx rx.
     center_x 16 = Inr cx \<and> top_y 16 = Inr ty \<and> bottom_y 16 = Inr bt \<and>
     left_x 16 = Inr lx \<and> right_x 16 = Inr rx \<and>
     float_val cx = 8 \<and> float_val ty = 4 \<and> float_val bt = 12 \<and>
     lx = round_to_double False 16 5 \<and> rx = round_to_double False 64 5"
proof -
  have "(16::int) \<in> set sizes" by (simp add: sizes_def)
  with coordinates_are_floats obtain cx ty bt lx rx where
    "center_x 16 = Inr cx" "top_y 16 = Inr ty" "bottom_y 16 = Inr bt"
    "left_x 16 = Inr lx" "right_x 16 = Inr rx"
    "float_val cx = of_int 16 / 2" "float_val ty = of_int 16 / 4" "float_val bt = 3 * of_int 16 / 4"
    "lx = round_to_double False (nat 16) 5" "rx = round_to_double False (nat (4 * 16)) 5"
    by blast
  then show ?thesis by simp
qed

text \<open>
  Claim C7. Every file produced is square: the \<^verbatim>\<open>width\<close> attribute and the \<^verbatim>\<open>height\<close>
  attribute of its text are both present and equal, and both are the text of the size \<open>S\<close>
  that names the file. A complete run writes exactly the eleven paths, and after it each of
  them holds such a text; in any run, complete or not, every write that was done wrote such
  a text. And for every size \<open>S > 0\<close>, not only for the sizes of the list, the coordinates
  the script computes are ordered as floats: \<open>top_y < bottom_y\<close> and
  \<open>left_x < center_x < right_x\<close> whenever the five computations return, which they do for
  every \<open>S\<close> below \<open>2\<^sup>1\<^sup>0\<^sup>2\<^sup>4 - 2\<^sup>9\<^sup>7\<^sup>0\<close>. (From \<open>2\<^sup>1\<^sup>0\<^sup>2\<^sup>4\<close> on an integer is too large for a
  float and the computation raises \<^verbatim>\<open>OverflowError\<close>: lemma \<open>svg_content_overflow\<close>.)
\<close>

theorem square_and_ordered:
  "(no_faults en file \<longrightarrow>
      fst (generate_icon en file w) = None \<and>
      map fst (writes_of w (snd (generate_icon en file w))) = targets file \<and>
      (\<forall>p \<in> set (targets file). \<exists>S \<in> set sizes. \<exists>c.
         (S \<le> 512 \<and> p = iconset_dir file @ [nominal_file S] \<or>
          32 \<le> S \<and> S \<le> 512 \<and> p = iconset_dir file @ [retina_file (S div 2)]) \<and>
         files (snd (generate_icon en file w)) p = Some c \<and>
         attr ''width'' c = Some (str_int S) \<and> attr ''height'' c = attr ''width'' c)) \<and>
   (\<forall>(p, c) \<in> set (writes_of w (snd (generate_icon en file w))). \<exists>S \<in> set sizes.
      (S \<le> 512 \<and> p = iconset_dir file @ [nominal_file S] \<or>
       32 \<le> S \<and> S \<le> 512 \<and> p = iconset_dir file @ [retina_file (S div 2)]) \<and>
      attr ''width'' c = Some (str_int S) \<and> attr ''height'' c = attr ''width'' c) \<and>
   (0 < T \<longrightarrow>
      (\<forall>cx ty bt lx rx.
         center_x T = Inr cx \<and> top_y T = Inr ty \<and> bottom_y T = Inr bt \<and>
         left_x T = Inr lx \<and> right_x T = Inr rx \<longrightarrow>
         float_lt ty bt \<and> float_lt lx cx \<and> float_lt cx rx) \<and>
      (T < 2 ^ 1024 - 2 ^ 970 \<longrightarrow>
         (\<exists>cx ty bt lx rx.
            center_x T = Inr cx \<and> top_y T = Inr ty \<and> bottom_y T = Inr bt \<and>
            left_x T = Inr lx \<and> right_x T = Inr rx \<and>
            float_lt ty bt \<and> float_lt lx cx \<and> float_lt cx rx)))"
proof -
  let ?dir = "iconset_dir file"
  let ?w' = "snd (generate_icon en file w)"
  let ?pl = "plan ?dir sizes"
  have entry: "\<exists>S \<in> set sizes.
        (S \<le> 512 \<and> p = ?dir @ [nominal_file S] \<or>
         32 \<le> S \<and> S \<le> 512 \<and> p = ?dir @ [retina_file (S div 2)]) \<and>
        attr ''width'' c = Some (str_int S) \<and> attr ''height'' c = attr ''width'' c"
    if pc: "(p, c) \<in> set ?pl" for p c
  proof -
    obtain S where S: "S \<in> set sizes" "svg_content S = Inr c"
      "S \<le> 512 \<and> p = ?dir @ [nominal_file S] \<or>
       32 \<le> S \<and> S \<le> 512 \<and> p = ?dir @ [retina_file (S div 2)]"
      using plan_entry[OF pc] by blast
    have "attr ''width'' c = Some (str_int S) \<and> attr ''height'' c = attr ''width'' c"
      using attr_square[OF S(1,2)] by simp
    then show ?thesis using S(1,3) by blast
  qed
  have logged: "\<forall>(p, c) \<in> set (writes_of w ?w'). \<exists>S \<in> set sizes.
        (S \<le> 512 \<and> p = ?dir @ [nominal_file S] \<or>
         32 \<le> S \<and> S \<le> 512 \<and> p = ?dir @ [retina_file (S div 2)]) \<and>
        attr ''width'' c = Some (str_int S) \<and> attr ''height'' c = attr ''width'' c"
  proof (intro ballI, clarify)
    fix p c assume "(p, c) \<in> set (writes_of w ?w')"
    moreover obtain k where "writes_of w ?w' = take k ?pl" using run_log by blast
    ultimately have "(p, c) \<in> set ?pl" by (auto dest: in_set_takeD)
    then show "\<exists>S \<in> set sizes.
        (S \<le> 512 \<and> p = ?dir @ [nominal_file S] \<or>
         32 \<le> S \<and> S \<le> 512 \<and> p = ?dir @ [retina_file (S div 2)]) \<and>
        attr ''width'' c = Some (str_int S) \<and> attr ''height'' c = attr ''width'' c"
      by (rule entry)
  qed
  have complete: "fst (generate_icon en file w) = None \<and>
      map fst (writes_of w ?w') = targets file \<and>
      (\<forall>p \<in> set (targets file). \<exists>S \<in> set sizes. \<exists>c.
         (S \<le> 512 \<and> p = ?dir @ [nominal_file S] \<or>
          32 \<le> S \<and> S \<le> 512 \<and> p = ?dir @ [retina_file (S div 2)]) \<and>
         files ?w' p = Some c \<and>
         attr ''width'' c = Some (str_int S) \<and> attr ''height'' c = attr ''width'' c)"
    if nf: "no_faults en file"
  proof (intro conjI ballI)
    show "fst (generate_icon en file w) = None" by (rule world_after_ok(1)[OF nf])
    show "map fst (writes_of w ?w') = targets file"
      by (simp add: world_after_ok(4)[OF nf] plan_targets)
    fix p assume "p \<in> set (targets file)"
    then have "p \<in> fst ` set ?pl" by (simp flip: plan_targets)
    then obtain c where pc: "(p, c) \<in> set ?pl" by auto
    have "map_of ?pl p = Some c"
      using distinct_plan pc by (rule map_of_is_SomeI)
    then have f: "files ?w' p = Some c" by (simp add: files_after_ok[OF nf])
    show "\<exists>S \<in> set sizes. \<exists>c.
         (S \<le> 512 \<and> p = ?dir @ [nominal_file S] \<or>
          32 \<le> S \<and> S \<le> 512 \<and> p = ?dir @ [retina_file (S div 2)]) \<and>
         files ?w' p = Some c \<and>
         attr ''width'' c = Some (str_int S) \<and> attr ''height'' c = attr ''width'' c"
      using entry[OF pc] f by blast
  qed
  have ordered: "float_lt ty bt \<and> float_lt lx cx \<and> float_lt cx rx"
    if "0 < T" "center_x T = Inr cx \<and> top_y T = Inr ty \<and> bottom_y T = Inr bt \<and>
         left_x T = Inr lx \<and> right_x T = Inr rx" for cx ty bt lx rx
    using that triangle_order[of T cx ty bt lx rx] by blast
  have returns: "\<exists>cx ty bt lx rx.
            center_x T = Inr cx \<and> top_y T = Inr ty \<and> bottom_y T = Inr bt \<and>
            left_x T = Inr lx \<and> right_x T = Inr rx \<and>
            float_lt ty bt \<and> float_lt lx cx \<and> float_lt cx rx"
    if T: "0 < T" "T < 2 ^ 1024 - 2 ^ 970"
  proof -
    obtain cx ty bt lx rx where r: "center_x T = Inr cx \<and> top_y T = Inr ty \<and>
        bottom_y T = Inr bt \<and> left_x T = Inr lx \<and> right_x T = Inr rx"
      using triangle_returns[OF T] by blast
    then show ?thesis using ordered[OF T(1) r] by blast
  qed
  show ?thesis using complete logged ordered returns by blast
qed

text \<open>
  The claim at the concrete run and at the size 32: the run completes,
  \<^verbatim>\<open>icon_16x16@2x.svg\<close> holds a text whose width and height are both \<^verbatim>\<open>32\<close>, and
  the five coordinates of the size 32 are computed and ordered.
\<close>

theorem square_and_ordered_witness:
  "fst (generate_icon env_ok file_example world_empty) = None \<and>
   (\<exists>c. files (snd (generate_icon env_ok file_example world_empty))
           (iconset_dir file_example @ [''icon_16x16@2x.svg'']) = Some c \<and>
        attr ''width'' c = Some ''32'' \<and> attr ''height'' c = Some ''32'') \<and>
   (\<exists>cx ty bt lx rx.
      center_x 32 = Inr cx \<and> top_y 32 = Inr ty \<and> bottom_y 32 = Inr bt \<and>
      left_x 32 = Inr lx \<and> right_x 32 = Inr rx \<and>
      float_lt ty bt \<and> float_lt lx cx \<and> float_lt cx rx)"
proof -
  let ?W = "snd (generate_icon env_ok file_example world_empty)"
  let ?dir = "iconset_dir file_example"
  let ?p = "?dir @ [''icon_16x16@2x.svg'']"
  note t = square_and_ordered[of env_ok file_example world_empty 32]
  have pos: "(0::int) < 32" and small: "(32::int) < 2 ^ 1024 - 2 ^ 970" by simp_all
  from t no_faults_env_ok[of file_example]
  have r: "fst (generate_icon env_ok file_example world_empty) = None"
    and a: "\<forall>p \<in> set (targets file_example). \<exists>S \<in> set sizes. \<exists>c.
         (S \<le> 512 \<and> p = ?dir @ [nominal_file S] \<or>
          32 \<le> S \<and> S \<le> 512 \<and> p = ?dir @ [retina_file (S div 2)]) \<and>
         files ?W p = Some c \<and>
         attr ''width'' c = Some (str_int S) \<and> attr ''height'' c = attr ''width'' c"
    by blast+
  from t pos small
  have o: "\<exists>cx ty bt lx rx.
      center_x 32 = Inr cx \<and> top_y 32 = Inr ty \<and> bottom_y 32 = Inr bt \<and>
      left_x 32 = Inr lx \<and> right_x 32 = Inr rx \<and>
      float_lt ty bt \<and> float_lt lx cx \<and> float_lt cx rx"
    by blast
  have "?p \<in> set (targets file_example)" by (simp add: targets_def icon_files_def)
  with a obtain S c where S: "S \<in> set sizes"
    and n: "S \<le> 512 \<and> ?p = ?dir @ [nominal_file S] \<or>
          32 \<le> S \<and> S \<le> 512 \<and> ?p = ?dir @ [retina_file (S div 2)]"
    and f: "files ?W ?p = Some c"
    and wh: "attr ''width'' c = Some (str_int S)" "attr ''height'' c = attr ''width'' c"
    by blast
  from n have "retina_file 16 = nominal_file S \<or> retina_file 16 = retina_file (S div 2)"
    by (auto simp: pattern_names)
  then have "S div 2 = 16" using retina_file_inj nominal_not_retina by metis
  then have "S = 32" using S by (auto simp: sizes_def)
  then have "attr ''width'' c = Some ''32'' \<and> attr ''height'' c = Some ''32''"
    using wh by (simp add: str_int_sizes)
  then show ?thesis using r f o by blast
qed

end
